theory Spec2Isabelle
  imports Main "HOL-Library.AList" "HOL-Library.Extended_Nat"
begin
section \<open>JavaScript values used by the optimisation layer\<close>

text \<open>
  A JavaScript \<^verbatim>\<open>Map\<close> iterates in insertion order, \<^verbatim>\<open>set\<close> on a present key keeps the
  key's position and \<^verbatim>\<open>set\<close> on a new key appends it.  An association list with
  \<^const>\<open>AList.update\<close> and \<^const>\<open>AList.delete\<close> behaves the same way, so the three maps
  of \<^verbatim>\<open>SmartCache\<close> and the maps of the search index are association lists.
\<close>

abbreviation Map_set :: "'k \<Rightarrow> 'v \<Rightarrow> ('k \<times> 'v) list \<Rightarrow> ('k \<times> 'v) list" where
  "Map_set \<equiv> AList.update"

abbreviation Map_delete :: "'k \<Rightarrow> ('k \<times> 'v) list \<Rightarrow> ('k \<times> 'v) list" where
  "Map_delete \<equiv> AList.delete"

abbreviation Map_get :: "('k \<times> 'v) list \<Rightarrow> 'k \<Rightarrow> 'v option" where
  "Map_get \<equiv> map_of"

definition Map_has :: "('k \<times> 'v) list \<Rightarrow> 'k \<Rightarrow> bool" where
  "Map_has m k = (map_of m k \<noteq> None)"

text \<open>
  \<^verbatim>\<open>String.prototype.replace(pattern, replacement)\<close> with a string pattern replaces the
  first occurrence only; \<^verbatim>\<open>includes\<close> is the substring test.
\<close>

fun js_replace :: "string \<Rightarrow> string \<Rightarrow> string \<Rightarrow> string" where
  "js_replace [] pat rep = (if pat = [] then rep else [])"
| "js_replace (c # cs) pat rep =
     (if take (length pat) (c # cs) = pat then rep @ drop (length pat) (c # cs)
      else c # js_replace cs pat rep)"

fun js_includes :: "string \<Rightarrow> string \<Rightarrow> bool" where
  "js_includes [] sub = (sub = [])"
| "js_includes (c # cs) sub = (take (length sub) (c # cs) = sub \<or> js_includes cs sub)"


section \<open>SmartCache\<close>

text \<open>The \<^verbatim>\<open>caching\<close> block of \<^verbatim>\<open>PERFORMANCE_CONFIG\<close>.\<close>

record caching_config =
  ttl :: int
  maxEntries :: nat
  keyPrefix :: string

definition PERFORMANCE_CONFIG_caching :: caching_config where
  "PERFORMANCE_CONFIG_caching =
     \<lparr> ttl = 300000, maxEntries = 1000, keyPrefix = ''trade_ops_'' \<rparr>"

text \<open>
  The cache object: the three maps of the constructor, together with the
  \<^verbatim>\<open>cacheStats\<close> counters of the performance monitor that the cache writes.
  Expiry times and \<^verbatim>\<open>Date.now()\<close> are milliseconds, passed in as integers.
\<close>

record 'v SmartCache =
  cache :: "(string \<times> 'v) list"
  timestamps :: "(string \<times> int) list"
  accessCount :: "(string \<times> nat) list"
  hits :: nat
  misses :: nat
  statsSize :: nat

definition SmartCache_new :: "'v SmartCache" where
  "SmartCache_new =
     \<lparr> cache = [], timestamps = [], accessCount = [], hits = 0, misses = 0, statsSize = 0 \<rparr>"

text \<open>\<^verbatim>\<open>delete(key)\<close>: the argument is prefixed, then removed from the three maps.\<close>

definition SmartCache_delete :: "caching_config \<Rightarrow> string \<Rightarrow> 'v SmartCache \<Rightarrow> 'v SmartCache" where
  "SmartCache_delete cfg key c =
     (let cacheKey = keyPrefix cfg @ key in
      c \<lparr> cache := Map_delete cacheKey (cache c),
          timestamps := Map_delete cacheKey (timestamps c),
          accessCount := Map_delete cacheKey (accessCount c),
          statsSize := length (Map_delete cacheKey (cache c)) \<rparr>)"

text \<open>
  The loop of \<^verbatim>\<open>evictOldest\<close> over \<^verbatim>\<open>accessCount.entries()\<close>, with its two variables
  \<^verbatim>\<open>oldestKey\<close> (initially \<^verbatim>\<open>null\<close>) and \<^verbatim>\<open>lowestCount\<close> (initially \<^verbatim>\<open>Infinity\<close>).
\<close>

fun evict_scan :: "(string \<times> nat) list \<Rightarrow> string option \<times> enat \<Rightarrow> string option \<times> enat" where
  "evict_scan [] acc = acc"
| "evict_scan ((key, count) # rest) (oldestKey, lowestCount) =
     (if enat count < lowestCount then evict_scan rest (Some key, enat count)
      else evict_scan rest (oldestKey, lowestCount))"

text \<open>
  \<^verbatim>\<open>if (oldestKey)\<close> is false for \<^verbatim>\<open>null\<close> and for the empty string; otherwise the
  prefix is stripped from the stored key and \<^verbatim>\<open>delete\<close> is called with the rest.
\<close>

definition SmartCache_evictOldest :: "caching_config \<Rightarrow> 'v SmartCache \<Rightarrow> 'v SmartCache" where
  "SmartCache_evictOldest cfg c =
     (case fst (evict_scan (accessCount c) (None, \<infinity>)) of
        None \<Rightarrow> c
      | Some oldestKey \<Rightarrow>
          if oldestKey = [] then c
          else SmartCache_delete cfg (js_replace oldestKey (keyPrefix cfg) []) c)"

text \<open>
  \<^verbatim>\<open>set(key, value, ttl)\<close> at time \<open>now\<close>; a caller that omits \<^verbatim>\<open>ttl\<close> passes the
  configured default.
\<close>

definition SmartCache_set ::
  "caching_config \<Rightarrow> string \<Rightarrow> 'v \<Rightarrow> int \<Rightarrow> int \<Rightarrow> 'v SmartCache \<Rightarrow> 'v SmartCache" where
  "SmartCache_set cfg key val ttl' now c =
     (let cacheKey = keyPrefix cfg @ key;
          c1 = (if maxEntries cfg \<le> length (cache c) then SmartCache_evictOldest cfg c else c)
      in c1 \<lparr> cache := Map_set cacheKey val (cache c1),
              timestamps := Map_set cacheKey (now + ttl') (timestamps c1),
              accessCount := Map_set cacheKey 0 (accessCount c1),
              statsSize := length (Map_set cacheKey val (cache c1)) \<rparr>)"

text \<open>
  \<^verbatim>\<open>get(key)\<close> at time \<open>now\<close>: the result is \<open>None\<close> for \<^verbatim>\<open>null\<close>.  On an expired
  entry the method calls \<^verbatim>\<open>this.delete(cacheKey)\<close>, that is with the key that already
  carries the prefix.  A comparison with a missing expiry (\<^verbatim>\<open>undefined\<close>) is false.
  The three maps always hold the same keys (\<open>cache_wf\<close> below), so the branch for a
  missing access count is never taken.
\<close>

definition SmartCache_get ::
  "caching_config \<Rightarrow> string \<Rightarrow> int \<Rightarrow> 'v SmartCache \<Rightarrow> 'v option \<times> 'v SmartCache" where
  "SmartCache_get cfg key now c =
     (let cacheKey = keyPrefix cfg @ key in
      if \<not> Map_has (cache c) cacheKey then (None, c \<lparr> misses := misses c + 1 \<rparr>)
      else if (case Map_get (timestamps c) cacheKey of None \<Rightarrow> False | Some expiry \<Rightarrow> now > expiry)
      then (let c1 = SmartCache_delete cfg cacheKey c in (None, c1 \<lparr> misses := misses c1 + 1 \<rparr>))
      else (Map_get (cache c) cacheKey,
            c \<lparr> accessCount :=
                  Map_set cacheKey (case Map_get (accessCount c) cacheKey of
                                      None \<Rightarrow> 1 | Some n \<Rightarrow> n + 1) (accessCount c),
                hits := hits c + 1 \<rparr>))"

definition SmartCache_clear :: "'v SmartCache \<Rightarrow> 'v SmartCache" where
  "SmartCache_clear c = c \<lparr> cache := [], timestamps := [], accessCount := [], statsSize := 0 \<rparr>"

text \<open>A caller's use of the cache: a sequence of method calls, each with its clock reading.\<close>

datatype 'v cache_call =
    Call_set string 'v int int
  | Call_get string int
  | Call_delete string
  | Call_clear

fun apply_call :: "caching_config \<Rightarrow> 'v cache_call \<Rightarrow> 'v SmartCache \<Rightarrow> 'v SmartCache" where
  "apply_call cfg (Call_set key val ttl' now) c = SmartCache_set cfg key val ttl' now c"
| "apply_call cfg (Call_get key now) c = snd (SmartCache_get cfg key now c)"
| "apply_call cfg (Call_delete key) c = SmartCache_delete cfg key c"
| "apply_call cfg Call_clear c = SmartCache_clear c"

definition cache_calls :: "caching_config \<Rightarrow> 'v cache_call list \<Rightarrow> 'v SmartCache \<Rightarrow> 'v SmartCache" where
  "cache_calls cfg calls c = fold (apply_call cfg) calls c"

text \<open>
  The invariant of every cache built by its methods: the three maps hold the same keys in
  the same order, no key twice, and every stored key starts with the prefix.
\<close>

definition cache_wf :: "caching_config \<Rightarrow> 'v SmartCache \<Rightarrow> bool" where
  "cache_wf cfg c =
     (map fst (timestamps c) = map fst (cache c) \<and>
      map fst (accessCount c) = map fst (cache c) \<and>
      distinct (map fst (cache c)) \<and>
      list_all (\<lambda>k. take (length (keyPrefix cfg)) k = keyPrefix cfg) (map fst (cache c)))"

text \<open>The configuration of the source with the maximum lowered to two entries.\<close>

definition cfg_max2 :: caching_config where
  "cfg_max2 = PERFORMANCE_CONFIG_caching \<lparr> maxEntries := 2 \<rparr>"

definition calls_a_b_geta :: "nat cache_call list" where
  "calls_a_b_geta = [Call_set ''a'' 1 300000 0, Call_set ''b'' 2 300000 1, Call_get ''a'' 2]"


section \<open>Spreadsheet values\<close>

text \<open>
  A cell read from a sheet is a string, a number or a boolean; an empty cell is the empty
  string.  Numeric cells are modelled for integer values; fractions and dates are not
  modelled.
\<close>

datatype cell = CStr string | CNum int | CBool bool

type_synonym rows = "cell list list"


section \<open>BatchProcessor\<close>

text \<open>The \<^verbatim>\<open>batchSizes\<close> block of \<^verbatim>\<open>PERFORMANCE_CONFIG\<close>.\<close>

record batch_sizes =
  sheetsAPI :: nat
  driveAPI :: nat
  formulaUpdate :: nat
  dataValidation :: nat

definition PERFORMANCE_CONFIG_batchSizes :: batch_sizes where
  "PERFORMANCE_CONFIG_batchSizes =
     \<lparr> sheetsAPI = 100, driveAPI = 50, formulaUpdate = 200, dataValidation = 500 \<rparr>"

text \<open>\<^verbatim>\<open>items.slice(i, j)\<close> for indices \<open>i \<le> j\<close>; the end is clamped to the length.\<close>

definition js_slice :: "'a list \<Rightarrow> nat \<Rightarrow> nat \<Rightarrow> 'a list" where
  "js_slice items i j = take (j - i) (drop i items)"

text \<open>
  \<^verbatim>\<open>createBatches\<close>: the \<^verbatim>\<open>for\<close> loop with its counter \<open>i\<close> and the array \<open>batches\<close> built so
  far.  With a batch size of 0 the counter never advances, so the loop is a partial function
  and \<open>None\<close> stands for a call that does not return.
\<close>

partial_function (option) createBatches_loop ::
  "'a list \<Rightarrow> nat \<Rightarrow> nat \<Rightarrow> 'a list list \<Rightarrow> 'a list list option" where
  "createBatches_loop items batchSize i batches =
     (if i < length items
      then createBatches_loop items batchSize (i + batchSize)
             (batches @ [js_slice items i (i + batchSize)])
      else Some batches)"

definition createBatches :: "'a list \<Rightarrow> nat \<Rightarrow> 'a list list option" where
  "createBatches items batchSize = createBatches_loop items batchSize 0 []"

text \<open>
  An operation object of the sheets batch: its \<^verbatim>\<open>type\<close> string and the fields the helper
  methods read (\<^verbatim>\<open>sheetId\<close>, \<^verbatim>\<open>range\<close>, \<^verbatim>\<open>values\<close>, \<^verbatim>\<open>formulas\<close>); the last two may be
  absent.
\<close>

record operation =
  op_type :: string
  op_sheetId :: string
  op_range :: string
  op_values :: "rows option"
  op_formulas :: "string list list option"

text \<open>What a helper method returns, and the entry pushed to \<^verbatim>\<open>results\<close> for one item.\<close>

datatype sheets_data = Rows rows | RowsUpdated nat | UpdateOk

datatype 'd item_result = Success 'd | Failure string

text \<open>
  The remote spreadsheet service and the clock are outside the repository.  They are
  parameters: each call takes the state \<open>'e\<close> of the environment and returns either the
  message of the exception it throws (\<open>Inl\<close>) or its value (\<open>Inr\<close>), with the environment
  after the call.  A sheet is addressed by its id and a range by id and A1 notation.
\<close>

record 'e SpreadsheetApp =
  Date_now :: "'e \<Rightarrow> int"
  setTimeout :: "nat \<Rightarrow> 'e \<Rightarrow> 'e"
  openById :: "string \<Rightarrow> 'e \<Rightarrow> (string + unit) \<times> 'e"
  getRange :: "string \<Rightarrow> string \<Rightarrow> 'e \<Rightarrow> (string + unit) \<times> 'e"
  getValues :: "string \<Rightarrow> string \<Rightarrow> 'e \<Rightarrow> (string + rows) \<times> 'e"
  setValues :: "string \<Rightarrow> string \<Rightarrow> rows option \<Rightarrow> 'e \<Rightarrow> (string + unit) \<times> 'e"
  setFormulas :: "string \<Rightarrow> string \<Rightarrow> string list list option \<Rightarrow> 'e \<Rightarrow> (string + unit) \<times> 'e"

text \<open>The state the batch layer works on: the global \<^verbatim>\<open>smartCache\<close> and the environment.\<close>

record 'e world =
  smartCache :: "rows SmartCache"
  env :: 'e

text \<open>Sequencing of calls that may throw: the first exception ends the sequence.\<close>

definition and_then ::
  "('s \<Rightarrow> (string + 'a) \<times> 's) \<Rightarrow> ('a \<Rightarrow> 's \<Rightarrow> (string + 'b) \<times> 's) \<Rightarrow> 's \<Rightarrow> (string + 'b) \<times> 's" where
  "and_then m f s = (case m s of (Inl e, s') \<Rightarrow> (Inl e, s') | (Inr a, s') \<Rightarrow> f a s')"

definition remote :: "('e \<Rightarrow> (string + 'a) \<times> 'e) \<Rightarrow> 'e world \<Rightarrow> (string + 'a) \<times> 'e world" where
  "remote call w = (case call (env w) of (r, e') \<Rightarrow> (r, w \<lparr> env := e' \<rparr>))"

text \<open>
  \<^verbatim>\<open>invalidateSheetCache\<close>: the loop over the entries of \<^verbatim>\<open>smartCache.cache\<close>.  An entry
  deleted earlier in the loop is not visited.
\<close>

definition invalidate_step :: "caching_config \<Rightarrow> string \<Rightarrow> string \<Rightarrow> rows SmartCache \<Rightarrow> rows SmartCache" where
  "invalidate_step cfg sheet key c =
     (if Map_has (cache c) key \<and> js_includes key sheet
      then SmartCache_delete cfg (js_replace key (keyPrefix cfg) []) c else c)"

definition invalidateSheetCache :: "caching_config \<Rightarrow> string \<Rightarrow> 'e world \<Rightarrow> 'e world" where
  "invalidateSheetCache cfg sheet w =
     w \<lparr> smartCache := fold (invalidate_step cfg sheet) (map fst (cache (smartCache w))) (smartCache w) \<rparr>"

text \<open>
  \<^verbatim>\<open>readSheetsData\<close>: a cached array is returned as it is; otherwise the range is read and
  stored under the default time to live.
\<close>

definition readSheetsData ::
  "caching_config \<Rightarrow> 'e SpreadsheetApp \<Rightarrow> operation \<Rightarrow> 'e world \<Rightarrow> (string + sheets_data) \<times> 'e world" where
  "readSheetsData cfg api operation w =
     (let cacheKey = ''sheets_read_'' @ op_sheetId operation @ ''_'' @ op_range operation;
          (cached, c1) = SmartCache_get cfg cacheKey (Date_now api (env w)) (smartCache w);
          w1 = w \<lparr> smartCache := c1 \<rparr>
      in case cached of
           Some data \<Rightarrow> (Inr (Rows data), w1)
         | None \<Rightarrow>
             and_then (remote (openById api (op_sheetId operation))) (\<lambda>_.
             and_then (remote (getRange api (op_sheetId operation) (op_range operation))) (\<lambda>_.
             and_then (remote (getValues api (op_sheetId operation) (op_range operation))) (\<lambda>data w2.
               (Inr (Rows data),
                w2 \<lparr> smartCache :=
                       SmartCache_set cfg cacheKey data (ttl cfg) (Date_now api (env w2))
                         (smartCache w2) \<rparr>)))) w1)"

text \<open>
  \<^verbatim>\<open>writeSheetsData\<close>.  Reading \<^verbatim>\<open>operation.values.length\<close> of absent values throws a
  \<^verbatim>\<open>TypeError\<close>.
\<close>

definition writeSheetsData ::
  "caching_config \<Rightarrow> 'e SpreadsheetApp \<Rightarrow> operation \<Rightarrow> 'e world \<Rightarrow> (string + sheets_data) \<times> 'e world" where
  "writeSheetsData cfg api operation =
     and_then (remote (openById api (op_sheetId operation))) (\<lambda>_.
     and_then (remote (getRange api (op_sheetId operation) (op_range operation))) (\<lambda>_.
     and_then (remote (setValues api (op_sheetId operation) (op_range operation) (op_values operation))) (\<lambda>_ w.
       (case op_values operation of
          None \<Rightarrow> Inl ''Cannot read properties of undefined (reading 'length')''
        | Some vs \<Rightarrow> Inr (RowsUpdated (length vs)),
        invalidateSheetCache cfg (op_sheetId operation) w))))"

text \<open>\<^verbatim>\<open>updateSheetsData\<close>: formulas and values are written when present.\<close>

definition updateSheetsData ::
  "caching_config \<Rightarrow> 'e SpreadsheetApp \<Rightarrow> operation \<Rightarrow> 'e world \<Rightarrow> (string + sheets_data) \<times> 'e world" where
  "updateSheetsData cfg api operation =
     and_then (remote (openById api (op_sheetId operation))) (\<lambda>_.
     and_then (case op_formulas operation of
                 None \<Rightarrow> (\<lambda>w. (Inr (), w))
               | Some fs \<Rightarrow>
                   and_then (remote (getRange api (op_sheetId operation) (op_range operation))) (\<lambda>_.
                     remote (setFormulas api (op_sheetId operation) (op_range operation) (Some fs)))) (\<lambda>_.
     and_then (case op_values operation of
                 None \<Rightarrow> (\<lambda>w. (Inr (), w))
               | Some vs \<Rightarrow>
                   and_then (remote (getRange api (op_sheetId operation) (op_range operation))) (\<lambda>_.
                     remote (setValues api (op_sheetId operation) (op_range operation) (Some vs)))) (\<lambda>_ w.
       (Inr UpdateOk, invalidateSheetCache cfg (op_sheetId operation) w))))"

text \<open>
  The body of the \<^verbatim>\<open>try\<close> block of \<^verbatim>\<open>processSheetsData\<close> for one operation: the
  \<^verbatim>\<open>switch\<close> on the type string, whose default case throws.
\<close>

definition sheets_switch ::
  "caching_config \<Rightarrow> 'e SpreadsheetApp \<Rightarrow> operation \<Rightarrow> 'e world \<Rightarrow> (string + sheets_data) \<times> 'e world" where
  "sheets_switch cfg api operation w =
     (if op_type operation = ''read'' then readSheetsData cfg api operation w
      else if op_type operation = ''write'' then writeSheetsData cfg api operation w
      else if op_type operation = ''update'' then updateSheetsData cfg api operation w
      else (Inl (''Unknown operation type: '' @ op_type operation), w))"

text \<open>The \<^verbatim>\<open>try\<close>/\<^verbatim>\<open>catch\<close> around it: the entry pushed for the item.\<close>

definition entry :: "string + 'd \<Rightarrow> 'd item_result" where
  "entry r = (case r of Inl message \<Rightarrow> Failure message | Inr data \<Rightarrow> Success data)"

text \<open>\<^verbatim>\<open>processSheetsData\<close>: the loop over the batch; the entries are returned in order.\<close>

fun processSheetsData ::
  "caching_config \<Rightarrow> 'e SpreadsheetApp \<Rightarrow> operation list \<Rightarrow> 'e world
     \<Rightarrow> sheets_data item_result list \<times> 'e world" where
  "processSheetsData cfg api [] w = ([], w)"
| "processSheetsData cfg api (operation # batch) w =
     (case sheets_switch cfg api operation w of
        (r, w1) \<Rightarrow>
          (case processSheetsData cfg api batch w1 of
             (results, w2) \<Rightarrow> (entry r # results, w2)))"

text \<open>
  The loop of \<^verbatim>\<open>batchSheetsOperations\<close> over the batches: one \<^verbatim>\<open>processSheetsData\<close> call
  per batch, its entries appended to \<^verbatim>\<open>results\<close>, then the pause of 100 ms.  Nothing in
  the loop throws, so the \<^verbatim>\<open>catch\<close> of the method is never entered; the calls that report
  the duration to the performance monitor are left out.
\<close>

fun sheets_batches ::
  "caching_config \<Rightarrow> 'e SpreadsheetApp \<Rightarrow> operation list list \<Rightarrow> 'e world
     \<Rightarrow> sheets_data item_result list \<times> 'e world" where
  "sheets_batches cfg api [] w = ([], w)"
| "sheets_batches cfg api (batch # batches) w =
     (case processSheetsData cfg api batch w of
        (batchResult, w1) \<Rightarrow>
          (case sheets_batches cfg api batches (w1 \<lparr> env := setTimeout api 100 (env w1) \<rparr>) of
             (results, w2) \<Rightarrow> (batchResult @ results, w2)))"

definition batchSheetsOperations ::
  "caching_config \<Rightarrow> batch_sizes \<Rightarrow> 'e SpreadsheetApp \<Rightarrow> operation list \<Rightarrow> 'e world
     \<Rightarrow> (sheets_data item_result list \<times> 'e world) option" where
  "batchSheetsOperations cfg sizes api operations w =
     (case createBatches operations (sheetsAPI sizes) of
        None \<Rightarrow> None
      | Some batches \<Rightarrow> Some (sheets_batches cfg api batches w))"

text \<open>
  The reference the chunked loop is compared with: the operations of a list run one after
  another, each exactly once, with the pause after every \<open>B\<close>-th operation and after the
  last one.  \<open>state_before \<dots> i\<close> is the state of the cache and the environment in
  which the \<open>i\<close>-th operation (counted from 0) runs, and for \<open>i\<close> the length of the list the
  state at the end.
\<close>

primrec state_before ::
  "caching_config \<Rightarrow> 'e SpreadsheetApp \<Rightarrow> nat \<Rightarrow> operation list \<Rightarrow> 'e world \<Rightarrow> nat \<Rightarrow> 'e world" where
  "state_before cfg api B ops w 0 = w"
| "state_before cfg api B ops w (Suc i) =
     (let s = snd (sheets_switch cfg api (ops ! i) (state_before cfg api B ops w i))
      in if Suc i mod B = 0 \<or> Suc i = length ops
         then s \<lparr> env := setTimeout api 100 (env s) \<rparr> else s)"

text \<open>
  The remote calls an operation makes, in order, as calls that return no value: none for an
  unknown kind or for a read that the cache answers.  \<open>first_throw\<close> runs such calls and
  gives the message of the first one that throws.
\<close>

definition forget :: "('e \<Rightarrow> (string + 'a) \<times> 'e) \<Rightarrow> 'e \<Rightarrow> (string + unit) \<times> 'e" where
  "forget call e = (case call e of (Inl message, e') \<Rightarrow> (Inl message, e') | (Inr a, e') \<Rightarrow> (Inr (), e'))"

fun first_throw :: "('e \<Rightarrow> (string + unit) \<times> 'e) list \<Rightarrow> 'e \<Rightarrow> string option" where
  "first_throw [] e = None"
| "first_throw (call # calls) e =
     (case call e of (Inl message, e') \<Rightarrow> Some message | (Inr u, e') \<Rightarrow> first_throw calls e')"

definition remote_calls ::
  "caching_config \<Rightarrow> 'e SpreadsheetApp \<Rightarrow> operation \<Rightarrow> 'e world \<Rightarrow> ('e \<Rightarrow> (string + unit) \<times> 'e) list" where
  "remote_calls cfg api operation w =
     (if op_type operation = ''read'' then
        (if fst (SmartCache_get cfg (''sheets_read_'' @ op_sheetId operation @ ''_'' @ op_range operation)
                   (Date_now api (env w)) (smartCache w)) = None
         then [openById api (op_sheetId operation),
               getRange api (op_sheetId operation) (op_range operation),
               forget (getValues api (op_sheetId operation) (op_range operation))]
         else [])
      else if op_type operation = ''write'' then
        [openById api (op_sheetId operation),
         getRange api (op_sheetId operation) (op_range operation),
         setValues api (op_sheetId operation) (op_range operation) (op_values operation)]
      else if op_type operation = ''update'' then
        openById api (op_sheetId operation) #
        (case op_formulas operation of
           None \<Rightarrow> []
         | Some fs \<Rightarrow> [getRange api (op_sheetId operation) (op_range operation),
                       setFormulas api (op_sheetId operation) (op_range operation) (Some fs)]) @
        (case op_values operation of
           None \<Rightarrow> []
         | Some vs \<Rightarrow> [getRange api (op_sheetId operation) (op_range operation),
                       setValues api (op_sheetId operation) (op_range operation) (Some vs)])
      else [])"

text \<open>
  An in-memory spreadsheet service for running the batch layer: the content of each range,
  the ids of the sheets that refuse writes, and a clock that \<^verbatim>\<open>setTimeout\<close> advances.
\<close>

record mem_sheets =
  content :: "((string \<times> string) \<times> rows) list"
  protected :: "string list"
  clock :: int

definition mem_SpreadsheetApp :: "mem_sheets SpreadsheetApp" where
  "mem_SpreadsheetApp =
     \<lparr> Date_now = clock,
       setTimeout = (\<lambda>ms e. e \<lparr> clock := clock e + int ms \<rparr>),
       openById = (\<lambda>sheet e. (Inr (), e)),
       getRange = (\<lambda>sheet a1 e. (Inr (), e)),
       getValues = (\<lambda>sheet a1 e.
          (case map_of (content e) (sheet, a1) of None \<Rightarrow> Inr [] | Some data \<Rightarrow> Inr data, e)),
       setValues = (\<lambda>sheet a1 vs e.
          if sheet \<in> set (protected e)
          then (Inl ''You are trying to edit a protected cell or object.'', e)
          else (case vs of
                  None \<Rightarrow> (Inl ''The parameters (null) don't match the method signature.'', e)
                | Some data \<Rightarrow> (Inr (), e \<lparr> content := AList.update (sheet, a1) data (content e) \<rparr>))),
       setFormulas = (\<lambda>sheet a1 fs e. (Inr (), e)) \<rparr>"

definition write_A1 :: operation where
  "write_A1 = \<lparr> op_type = ''write'', op_sheetId = ''S1'', op_range = ''A1'',
                op_values = Some [[CStr ''new'']], op_formulas = None \<rparr>"

definition read_A1 :: operation where
  "read_A1 = \<lparr> op_type = ''read'', op_sheetId = ''S1'', op_range = ''A1'',
               op_values = None, op_formulas = None \<rparr>"

definition unknown_op :: operation where
  "unknown_op = \<lparr> op_type = ''delete'', op_sheetId = ''S1'', op_range = ''A1'',
                  op_values = None, op_formulas = None \<rparr>"

definition world_open :: "mem_sheets world" where
  "world_open =
     \<lparr> smartCache = SmartCache_new,
       env = \<lparr> content = [((''S1'', ''A1''), [[CStr ''old'']])], protected = [], clock = 0 \<rparr> \<rparr>"

definition world_protected :: "mem_sheets world" where
  "world_protected = world_open \<lparr> env := (env world_open) \<lparr> protected := [''S1''] \<rparr> \<rparr>"

text \<open>Three operations and a batch size of two, for running the sheets batch.\<close>

definition sizes_two :: batch_sizes where
  "sizes_two = PERFORMANCE_CONFIG_batchSizes \<lparr> sheetsAPI := 2 \<rparr>"

definition three_ops :: "operation list" where
  "three_ops = [read_A1, unknown_op, read_A1]"

text \<open>
  A spreadsheet service that only counts the remote calls made to it, and three writes.
\<close>

definition counting_SpreadsheetApp :: "nat SpreadsheetApp" where
  "counting_SpreadsheetApp =
     \<lparr> Date_now = (\<lambda>n. 0),
       setTimeout = (\<lambda>ms n. n),
       openById = (\<lambda>sheet n. (Inr (), n + 1)),
       getRange = (\<lambda>sheet a1 n. (Inr (), n + 1)),
       getValues = (\<lambda>sheet a1 n. (Inr [], n + 1)),
       setValues = (\<lambda>sheet a1 vs n. (Inr (), n + 1)),
       setFormulas = (\<lambda>sheet a1 fs n. (Inr (), n + 1)) \<rparr>"

definition three_writes :: "operation list" where
  "three_writes = [write_A1, write_A1, write_A1]"

definition no_calls_yet :: "nat world" where
  "no_calls_yet = \<lparr> smartCache = SmartCache_new, env = 0 \<rparr>"


section \<open>The search index of OptimizedSheetOperations\<close>

text \<open>
  Truthiness of a cell, as \<^verbatim>\<open>if (value)\<close> tests it: the empty string, the number 0 and
  \<^verbatim>\<open>false\<close> are falsy.
\<close>

fun truthy :: "cell \<Rightarrow> bool" where
  "truthy (CStr s) = (s \<noteq> [])"
| "truthy (CNum n) = (n \<noteq> 0)"
| "truthy (CBool b) = b"

text \<open>
  \<^verbatim>\<open>toString()\<close>: a string is itself, an integer prints in decimal (as JavaScript does
  below \<open>10\<^sup>2\<^sup>1\<close>), a boolean by name.
\<close>

definition digit_char :: "nat \<Rightarrow> char" where
  "digit_char d = ''0123456789'' ! d"

fun nat_digits :: "nat \<Rightarrow> string" where
  "nat_digits n = (if n < 10 then [digit_char n] else nat_digits (n div 10) @ [digit_char (n mod 10)])"

declare nat_digits.simps [simp del]

definition Number_toString :: "int \<Rightarrow> string" where
  "Number_toString i = (if i < 0 then CHR ''-'' # nat_digits (nat (- i)) else nat_digits (nat i))"

fun toString :: "cell \<Rightarrow> string" where
  "toString (CStr s) = s"
| "toString (CNum n) = Number_toString n"
| "toString (CBool b) = (if b then ''true'' else ''false'')"

text \<open>
  \<^verbatim>\<open>toLowerCase()\<close> on the letters A to Z; every other character is kept, so strings are
  taken to be ASCII text.
\<close>

definition lower_char :: "char \<Rightarrow> char" where
  "lower_char c =
     (case map_of (zip ''ABCDEFGHIJKLMNOPQRSTUVWXYZ'' ''abcdefghijklmnopqrstuvwxyz'') c of
        None \<Rightarrow> c | Some l \<Rightarrow> l)"

definition toLowerCase :: "string \<Rightarrow> string" where
  "toLowerCase s = map lower_char s"

text \<open>
  The index object maps a column name to a \<^verbatim>\<open>Map\<close> from value string to the array of row
  numbers.  Column names are taken to differ from the property names that every object
  inherits (\<^verbatim>\<open>constructor\<close>, \<^verbatim>\<open>toString\<close> and the like), for which the look-up in the source
  does not give a \<^verbatim>\<open>Map\<close> and the search throws.
\<close>

type_synonym column_index = "(string \<times> nat list) list"
type_synonym search_index = "(string \<times> column_index) list"

text \<open>\<^verbatim>\<open>data[rowIndex][colIndex]\<close>; \<open>None\<close> is \<^verbatim>\<open>undefined\<close>, past the end of the row.\<close>

definition cell_at :: "rows \<Rightarrow> nat \<Rightarrow> nat \<Rightarrow> cell option" where
  "cell_at data rowIndex colIndex =
     (if rowIndex < length data \<and> colIndex < length (data ! rowIndex)
      then Some (data ! rowIndex ! colIndex) else None)"

text \<open>The body of the inner loop of \<^verbatim>\<open>buildSearchIndex\<close> for one row of one column.\<close>

definition index_cell :: "rows \<Rightarrow> nat \<Rightarrow> nat \<Rightarrow> column_index \<Rightarrow> column_index" where
  "index_cell data colIndex rowIndex m =
     (case cell_at data rowIndex colIndex of
        None \<Rightarrow> m
      | Some v \<Rightarrow>
          if truthy v then
            (let valueStr = toLowerCase (toString v);
                 m1 = (if \<not> Map_has m valueStr then Map_set valueStr [] m else m)
             in case Map_get m1 valueStr of
                  None \<Rightarrow> m1
                | Some rs \<Rightarrow> Map_set valueStr (rs @ [rowIndex]) m1)
          else m)"

definition build_column :: "rows \<Rightarrow> nat \<Rightarrow> column_index" where
  "build_column data colIndex = fold (index_cell data colIndex) [1..<length data] []"

text \<open>
  \<^verbatim>\<open>buildSearchIndex(data, headers)\<close>: for each header, in order, a fresh map is stored
  under the header's name and filled from the rows 1 to \<^verbatim>\<open>data.length - 1\<close>.
\<close>

definition buildSearchIndex :: "rows \<Rightarrow> cell list \<Rightarrow> search_index" where
  "buildSearchIndex data headers =
     fold (\<lambda>(header, colIndex) index. Map_set (toString header) (build_column data colIndex) index)
       (zip headers [0..<length headers]) []"

text \<open>A \<^verbatim>\<open>Set\<close> of row numbers, in insertion order.\<close>

definition Set_add :: "nat \<Rightarrow> nat list \<Rightarrow> nat list" where
  "Set_add row s = (if row \<in> set s then s else s @ [row])"

text \<open>
  The body of the \<^verbatim>\<open>forEach\<close> of \<^verbatim>\<open>searchWithIndex\<close> for one criterion, on the set
  \<^verbatim>\<open>matchingRows\<close>: a column missing from the index is skipped; the rows are added when the
  set is empty and intersected with it otherwise.
\<close>

definition search_step :: "search_index \<Rightarrow> string \<times> cell \<Rightarrow> nat list \<Rightarrow> nat list" where
  "search_step index criterion matchingRows =
     (case criterion of (column, v) \<Rightarrow>
        (case Map_get index column of
           None \<Rightarrow> matchingRows
         | Some columnMap \<Rightarrow>
             (let valueStr = toLowerCase (toString v);
                  rs = (case Map_get columnMap valueStr of None \<Rightarrow> [] | Some found \<Rightarrow> found)
              in if length matchingRows = 0 then fold Set_add rs matchingRows
                 else fold Set_add
                        (fold (\<lambda>row newMatches.
                                 if row \<in> set matchingRows then Set_add row newMatches
                                 else newMatches) rs [])
                        [])))"

text \<open>
  \<^verbatim>\<open>searchWithIndex(index, criteria)\<close>; the criteria are the entries of the criteria
  object in the order \<^verbatim>\<open>Object.entries\<close> lists them.
\<close>

definition searchWithIndex :: "search_index \<Rightarrow> (string \<times> cell) list \<Rightarrow> nat list" where
  "searchWithIndex index criteria = fold (search_step index) criteria []"

text \<open>Two snapshots: orders with a status and a client, and quantities with a text cell.\<close>

definition orders_data :: rows where
  "orders_data =
     [[CStr ''Status'', CStr ''Client''],
      [CStr ''Pending'', CStr ''Acme''],
      [CStr ''Processing'', CStr ''Beta''],
      [CStr ''Pending'', CStr ''Acme'']]"

definition orders_index :: search_index where
  "orders_index = buildSearchIndex orders_data (hd orders_data)"

definition qty_data :: rows where
  "qty_data = [[CStr ''Qty''], [CNum 0], [CStr ''0''], [CNum 12]]"

definition qty_index :: search_index where
  "qty_index = buildSearchIndex qty_data (hd qty_data)"


section \<open>Order folders on the drive\<close>

text \<open>\<^verbatim>\<open>orderId.split('-')\<close>: the pieces between the separators; never an empty array.\<close>

fun js_split :: "char \<Rightarrow> string \<Rightarrow> string list" where
  "js_split sep [] = [[]]"
| "js_split sep (c # cs) =
     (if c = sep then [] # js_split sep cs
      else (case js_split sep cs of [] \<Rightarrow> [[c]] | piece # pieces \<Rightarrow> (c # piece) # pieces))"

text \<open>
  \<^verbatim>\<open>parseInt(s)\<close> without a radix: leading white space (the ASCII blanks), an optional
  sign, then the longest run of digits (hexadecimal after \<^verbatim>\<open>0x\<close>); \<open>None\<close> is \<^verbatim>\<open>NaN\<close>.
\<close>

definition digit_value :: "char \<Rightarrow> nat option" where
  "digit_value c = map_of (zip ''0123456789'' [0..<10]) c"

definition hex_value :: "char \<Rightarrow> nat option" where
  "hex_value c =
     map_of (zip ''0123456789abcdefABCDEF'' ([0..<16] @ [10..<16])) c"

definition digits_value :: "nat \<Rightarrow> (char \<Rightarrow> nat option) \<Rightarrow> string \<Rightarrow> nat" where
  "digits_value radix val ds = foldl (\<lambda>acc c. acc * radix + the (val c)) 0 ds"

definition is_space :: "char \<Rightarrow> bool" where
  "is_space c = (c \<in> set [CHR '' '', CHR 0x09, CHR 0x0A, CHR 0x0B, CHR 0x0C, CHR 0x0D])"

definition parseInt :: "string \<Rightarrow> int option" where
  "parseInt s =
     (let s1 = dropWhile is_space s;
          negative = (take 1 s1 = ''-'');
          s2 = (if take 1 s1 = ''-'' \<or> take 1 s1 = ''+'' then drop 1 s1 else s1);
          hex = (take 2 s2 = ''0x'' \<or> take 2 s2 = ''0X'');
          ds = (if hex then takeWhile (\<lambda>c. hex_value c \<noteq> None) (drop 2 s2)
                else takeWhile (\<lambda>c. digit_value c \<noteq> None) s2);
          n = (if hex then digits_value 16 hex_value ds else digits_value 10 digit_value ds)
      in if ds = [] then None else Some (if negative then - int n else int n))"

text \<open>
  The quarter name \<^verbatim>\<open>`Q${Math.ceil(month / 3)}`\<close>, for months in the range where numbers
  are exact integers.
\<close>

definition quarter_of :: "int option \<Rightarrow> string" where
  "quarter_of month =
     (case month of None \<Rightarrow> ''QNaN'' | Some m \<Rightarrow> ''Q'' @ Number_toString (- ((- m) div 3)))"

text \<open>
  \<^verbatim>\<open>sanitizeFolderName\<close>: each of the characters \<^verbatim>\<open>< > : " / \ | ? *\<close> becomes an
  underscore, and the first 50 characters are kept.
\<close>

definition illegal_chars :: "char list" where
  "illegal_chars =
     [CHR ''<'', CHR ''>'', CHR '':'', CHR 0x22, CHR ''/'', CHR 0x5C, CHR ''|'', CHR ''?'', CHR ''*'']"

definition sanitizeFolderName :: "string \<Rightarrow> string" where
  "sanitizeFolderName name =
     take 50 (map (\<lambda>c. if c \<in> set illegal_chars then CHR ''_'' else c) name)"

text \<open>
  \<^verbatim>\<open>DRIVE_CONFIG.orderFolderStructure\<close>: a nested object whose leaves are arrays of file
  names; and the sharing settings of the \<^verbatim>\<open>User\<close> role.
\<close>

datatype "structure" = Obj "(string \<times> structure) list" | Arr "string list"

definition orderFolderStructure :: "structure" where
  "orderFolderStructure = Obj
     [(''Documents'', Obj [(''Quotes'', Arr []), (''Contracts'', Arr []),
                           (''Invoices'', Arr []), (''Certificates'', Arr [])]),
      (''Communications'', Obj [(''Emails'', Arr []), (''WeChat_Logs'', Arr []),
                                (''Phone_Records'', Arr [])]),
      (''Attachments'', Obj [(''Product_Specs'', Arr []), (''Shipping_Docs'', Arr []),
                             (''Quality_Reports'', Arr []), (''Photos'', Arr [])]),
      (''Internal'', Obj [(''Production_Notes'', Arr []), (''Quality_Control'', Arr []),
                          (''Logistics_Planning'', Arr [])])]"

datatype access = DOMAIN | DOMAIN_WITH_LINK | ANYONE_WITH_LINK

datatype permission = VIEW | EDIT

record blob =
  blob_data :: "(string \<times> string) list"
  blob_contentType :: string
  blob_name :: string

text \<open>
  The Apps Script services the provisioner calls are outside the repository and are
  parameters, like the spreadsheet service above: a call takes the state \<open>'e\<close> of the remote
  side and returns the message of the exception it throws or its value, with the state after
  the call.  A folder object is the string that identifies it.  \<^verbatim>\<open>getFoldersByName\<close> and
  \<^verbatim>\<open>getFolders\<close> return the folders their iterator yields, in order.
\<close>

record 'e Services =
  getProperty :: "string \<Rightarrow> 'e \<Rightarrow> (string + string option) \<times> 'e"
  getFolderById :: "string \<Rightarrow> 'e \<Rightarrow> (string + string) \<times> 'e"
  getFoldersByName :: "string \<Rightarrow> string \<Rightarrow> 'e \<Rightarrow> (string + string list) \<times> 'e"
  createFolder :: "string \<Rightarrow> string \<Rightarrow> 'e \<Rightarrow> (string + string) \<times> 'e"
  getFolders :: "string \<Rightarrow> 'e \<Rightarrow> (string + string list) \<times> 'e"
  getId :: "string \<Rightarrow> 'e \<Rightarrow> (string + string) \<times> 'e"
  getUrl :: "string \<Rightarrow> 'e \<Rightarrow> (string + string) \<times> 'e"
  getName :: "string \<Rightarrow> 'e \<Rightarrow> (string + string) \<times> 'e"
  setSharing :: "string \<Rightarrow> access \<Rightarrow> permission \<Rightarrow> 'e \<Rightarrow> (string + unit) \<times> 'e"
  addEditor :: "string \<Rightarrow> string \<Rightarrow> 'e \<Rightarrow> (string + unit) \<times> 'e"
  createFile :: "string \<Rightarrow> blob \<Rightarrow> 'e \<Rightarrow> (string + unit) \<times> 'e"
  toISOString :: "'e \<Rightarrow> (string + string) \<times> 'e"
  getActiveUserEmail :: "'e \<Rightarrow> (string + string) \<times> 'e"
  getSheetByName :: "string \<Rightarrow> 'e \<Rightarrow> (string + bool) \<times> 'e"
  insertSheet :: "string \<Rightarrow> 'e \<Rightarrow> (string + unit) \<times> 'e"
  writeHeader :: "string \<Rightarrow> string list \<Rightarrow> 'e \<Rightarrow> (string + unit) \<times> 'e"
  appendRow :: "string \<Rightarrow> string list \<Rightarrow> 'e \<Rightarrow> (string + unit) \<times> 'e"

definition return :: "'a \<Rightarrow> 's \<Rightarrow> (string + 'a) \<times> 's" where
  "return a s = (Inr a, s)"

definition throw :: "string \<Rightarrow> 's \<Rightarrow> (string + 'a) \<times> 's" where
  "throw message s = (Inl message, s)"

text \<open>A \<^verbatim>\<open>try\<close> block whose \<^verbatim>\<open>catch\<close> only logs to the console.\<close>

definition try_and_log :: "('s \<Rightarrow> (string + 'a) \<times> 's) \<Rightarrow> 's \<Rightarrow> (string + unit) \<times> 's" where
  "try_and_log body s = (case body s of (r, s') \<Rightarrow> (Inr (), s'))"

text \<open>\<^verbatim>\<open>getOrCreateFolder(parentFolder, name)\<close>.\<close>

definition getOrCreateFolder ::
  "'e Services \<Rightarrow> string \<Rightarrow> string \<Rightarrow> 'e \<Rightarrow> (string + string) \<times> 'e" where
  "getOrCreateFolder api parentFolder name =
     and_then (getFoldersByName api parentFolder name) (\<lambda>folders.
       case folders of
         folder # rest \<Rightarrow> return folder
       | [] \<Rightarrow> createFolder api parentFolder name)"

text \<open>
  \<^verbatim>\<open>createOrderSubfolders\<close>: the inner function \<^verbatim>\<open>createStructure\<close>.  Every entry gets its
  folder; an entry whose value has keys is descended into.  The entries of an array are its
  indices, whose values are strings and are not descended into.
\<close>

definition has_keys :: "structure \<Rightarrow> bool" where
  "has_keys s = (case s of Obj entries \<Rightarrow> entries \<noteq> [] | Arr names \<Rightarrow> names \<noteq> [])"

fun createStructure ::
  "'e Services \<Rightarrow> string \<Rightarrow> structure \<Rightarrow> 'e \<Rightarrow> (string + unit) \<times> 'e" where
  "createStructure api parentFolder (Obj []) = return ()"
| "createStructure api parentFolder (Obj ((folderName, subStructure) # entries)) =
     and_then (getOrCreateFolder api parentFolder folderName) (\<lambda>subfolder.
     and_then (if has_keys subStructure then createStructure api subfolder subStructure
               else return ()) (\<lambda>_.
     createStructure api parentFolder (Obj entries)))"
| "createStructure api parentFolder (Arr names) =
     fold (\<lambda>i done. and_then done (\<lambda>_.
             and_then (getOrCreateFolder api parentFolder (nat_digits i)) (\<lambda>_. return ())))
       [0..<length names] (return ())"

definition createOrderSubfolders :: "'e Services \<Rightarrow> string \<Rightarrow> 'e \<Rightarrow> (string + unit) \<times> 'e" where
  "createOrderSubfolders api orderFolder = createStructure api orderFolder orderFolderStructure"

text \<open>\<^verbatim>\<open>setOrderFolderPermissions\<close>; an empty client e-mail is falsy.\<close>

definition setOrderFolderPermissions ::
  "'e Services \<Rightarrow> string \<Rightarrow> string \<Rightarrow> 'e \<Rightarrow> (string + unit) \<times> 'e" where
  "setOrderFolderPermissions api orderFolder clientEmail =
     try_and_log
       (and_then (setSharing api orderFolder DOMAIN_WITH_LINK VIEW) (\<lambda>_.
          if clientEmail \<noteq> [] \<and> js_includes clientEmail ''@'' then
            and_then (addEditor api orderFolder clientEmail) (\<lambda>_.
            and_then (getOrCreateFolder api orderFolder ''Client_Access'') (\<lambda>clientFolder.
              setSharing api clientFolder ANYONE_WITH_LINK VIEW))
          else return ()))"

text \<open>
  \<^verbatim>\<open>createOrderMetadata\<close>: the metadata object, kept as its key and value pairs instead of
  the JSON text, is put in a blob and \<^verbatim>\<open>orderFolder.createFile(blob)\<close> is called.
\<close>

definition structure_keys :: "structure \<Rightarrow> string list" where
  "structure_keys s = (case s of Obj entries \<Rightarrow> map fst entries
                               | Arr names \<Rightarrow> map nat_digits [0..<length names])"

definition createOrderMetadata ::
  "'e Services \<Rightarrow> string \<Rightarrow> string \<Rightarrow> string \<Rightarrow> string \<Rightarrow> string \<Rightarrow> 'e \<Rightarrow> (string + unit) \<times> 'e" where
  "createOrderMetadata api orderFolder orderId clientName clientEmail productCategory =
     and_then (toISOString api) (\<lambda>createdDate.
       createFile api orderFolder
         \<lparr> blob_data =
             [(''orderId'', orderId), (''clientName'', clientName), (''clientEmail'', clientEmail),
              (''productCategory'', productCategory), (''createdDate'', createdDate),
              (''folderStructure'', concat (map (\<lambda>k. k @ '','') (structure_keys orderFolderStructure))),
              (''status'', ''Active'')],
           blob_contentType = ''application/json'',
           blob_name = ''_order_metadata.json'' \<rparr>)"

text \<open>
  \<^verbatim>\<open>logFolderCreation\<close>: the row is built first (date and user), outside the \<^verbatim>\<open>try\<close>;
  writing it to the \<^verbatim>\<open>Folder_Log\<close> sheet is inside.  The date of the row is kept as its
  ISO string.  \<^verbatim>\<open>getSheetByName\<close> tells whether the sheet of the active spreadsheet exists.
\<close>

definition logFolderCreation ::
  "'e Services \<Rightarrow> string \<Rightarrow> string \<Rightarrow> string \<Rightarrow> 'e \<Rightarrow> (string + unit) \<times> 'e" where
  "logFolderCreation api orderId folderId' folderUrl' =
     and_then (toISOString api) (\<lambda>date.
     and_then (getActiveUserEmail api) (\<lambda>user.
       try_and_log
         (and_then (getSheetByName api ''Folder_Log'') (\<lambda>present.
          and_then (if present then return ()
                    else and_then (insertSheet api ''Folder_Log'') (\<lambda>_.
                           writeHeader api ''Folder_Log''
                             [''Timestamp'', ''Order_ID'', ''Folder_ID'', ''Folder_URL'',
                              ''Action'', ''User''])) (\<lambda>_.
            appendRow api ''Folder_Log''
              [date, orderId, folderId', folderUrl', ''Created'', user])))))"

text \<open>\<^verbatim>\<open>getSubfolderDetails\<close>: the object from folder name to folder id.\<close>

definition getSubfolderDetails ::
  "'e Services \<Rightarrow> string \<Rightarrow> 'e \<Rightarrow> (string + (string \<times> string) list) \<times> 'e" where
  "getSubfolderDetails api parentFolder =
     and_then (getFolders api parentFolder) (\<lambda>folders.
       fold (\<lambda>folder done. and_then done (\<lambda>subfolders.
               and_then (getName api folder) (\<lambda>name.
               and_then (getId api folder) (\<lambda>ident.
                 return (Map_set name ident subfolders)))))
         folders (return []))"

text \<open>
  The object \<^verbatim>\<open>createAdvancedOrderFolder\<close> returns: the success object has no \<^verbatim>\<open>error\<close>
  and the error object no \<^verbatim>\<open>subfolders\<close>.
\<close>

record order_folder =
  error :: "string option"
  folderId :: string
  folderUrl :: string
  folderPath :: string
  subfolders :: "(string \<times> string) list option"

text \<open>
  The \<^verbatim>\<open>try\<close> block of \<^verbatim>\<open>createAdvancedOrderFolder\<close>, in two parts: the steps after the
  identifier has been parsed, and before them the look-up of the root folder and the check
  of the identifier.
\<close>

definition order_folder_steps ::
  "'e Services \<Rightarrow> string \<Rightarrow> string \<Rightarrow> string \<Rightarrow> string \<Rightarrow> string \<Rightarrow> string \<Rightarrow> string
     \<Rightarrow> 'e \<Rightarrow> (string + order_folder) \<times> 'e" where
  "order_folder_steps api ordersFolder orderId year quarter clientName clientEmail productCategory =
     and_then (getOrCreateFolder api ordersFolder year) (\<lambda>yearFolder.
     and_then (getOrCreateFolder api yearFolder quarter) (\<lambda>quarterFolder.
     and_then (getOrCreateFolder api quarterFolder (orderId @ ''_'' @ sanitizeFolderName clientName))
       (\<lambda>orderFolder.
     and_then (createOrderSubfolders api orderFolder) (\<lambda>_.
     and_then (setOrderFolderPermissions api orderFolder clientEmail) (\<lambda>_.
     and_then (createOrderMetadata api orderFolder orderId clientName clientEmail productCategory) (\<lambda>_.
     and_then (getId api orderFolder) (\<lambda>logId.
     and_then (getUrl api orderFolder) (\<lambda>logUrl.
     and_then (logFolderCreation api orderId logId logUrl) (\<lambda>_.
     and_then (getId api orderFolder) (\<lambda>ident.
     and_then (getUrl api orderFolder) (\<lambda>url.
     and_then (getSubfolderDetails api orderFolder) (\<lambda>details.
       return \<lparr> error = None, folderId = ident, folderUrl = url,
                folderPath = year @ ''/'' @ quarter @ ''/'' @ orderId @ ''_'' @ sanitizeFolderName clientName,
                subfolders = Some details \<rparr>))))))))))))"

definition advanced_order_folder_body ::
  "'e Services \<Rightarrow> string \<Rightarrow> string \<Rightarrow> string \<Rightarrow> string \<Rightarrow> 'e \<Rightarrow> (string + order_folder) \<times> 'e" where
  "advanced_order_folder_body api orderId clientName clientEmail productCategory =
     and_then (getProperty api ''TRADE_OPERATIONS_FOLDER_ID'') (\<lambda>rootFolderId.
     and_then (case rootFolderId of
                 None \<Rightarrow> throw ''Root folder ID not found. Please run initializeDriveSystem() first.''
               | Some ident \<Rightarrow>
                   if ident = []
                   then throw ''Root folder ID not found. Please run initializeDriveSystem() first.''
                   else return ident) (\<lambda>rootFolderId.
     and_then (getFolderById api rootFolderId) (\<lambda>rootFolder.
     and_then (getOrCreateFolder api rootFolder ''01_Orders'') (\<lambda>ordersFolder.
       (let orderParts = js_split CHR ''-'' orderId in
        if length orderParts \<noteq> 4
        then throw (''Invalid Order ID format: '' @ orderId @ ''. Expected: ORD-YYYY-MM-DD-XXX'')
        else order_folder_steps api ordersFolder orderId (orderParts ! 1)
               (quarter_of (parseInt (orderParts ! 2))) clientName clientEmail productCategory)))))"

text \<open>\<^verbatim>\<open>createAdvancedOrderFolder\<close>: the \<^verbatim>\<open>catch\<close> turns any exception into the error object.\<close>

definition createAdvancedOrderFolder ::
  "'e Services \<Rightarrow> string \<Rightarrow> string \<Rightarrow> string \<Rightarrow> string \<Rightarrow> 'e \<Rightarrow> order_folder \<times> 'e" where
  "createAdvancedOrderFolder api orderId clientName clientEmail productCategory e =
     (case advanced_order_folder_body api orderId clientName clientEmail productCategory e of
        (Inr result, e') \<Rightarrow> (result, e')
      | (Inl message, e') \<Rightarrow>
          (\<lparr> error = Some message, folderId = ''ERROR_CREATING_FOLDER'', folderUrl = ''ERROR'',
             folderPath = ''ERROR'', subfolders = None \<rparr>, e'))"

text \<open>
  An in-memory drive for running the provisioner: script properties, folders as (id, parent
  id, name) in creation order, files with the id of their folder, sharing settings, the rows
  of the \<^verbatim>\<open>Folder_Log\<close> sheet once it exists, and the number of \<^verbatim>\<open>createFolder\<close> and
  \<^verbatim>\<open>createFile\<close> calls made so far.
\<close>

record mem_drive =
  properties :: "(string \<times> string) list"
  drive_folders :: "(string \<times> string \<times> string) list"
  drive_files :: "(string \<times> blob) list"
  shared :: "(string \<times> access \<times> permission) list"
  editors :: "(string \<times> string) list"
  folder_log :: "string list list option"
  create_calls :: nat

definition mem_Services :: "mem_drive Services" where
  "mem_Services =
     \<lparr> getProperty = (\<lambda>key e. (Inr (map_of (properties e) key), e)),
       getFolderById = (\<lambda>ident e.
          if ident \<in> set (map fst (drive_folders e)) then (Inr ident, e)
          else (Inl ''No item with the given ID could be found.'', e)),
       getFoldersByName = (\<lambda>parent name e.
          (Inr (map fst (filter (\<lambda>(i, p, n). p = parent \<and> n = name) (drive_folders e))), e)),
       createFolder = (\<lambda>parent name e.
          (Inr (''F'' @ nat_digits (length (drive_folders e))),
           e \<lparr> drive_folders :=
                 drive_folders e @ [(''F'' @ nat_digits (length (drive_folders e)), parent, name)],
               create_calls := create_calls e + 1 \<rparr>)),
       getFolders = (\<lambda>parent e.
          (Inr (map fst (filter (\<lambda>(i, p, n). p = parent) (drive_folders e))), e)),
       getId = (\<lambda>folder e. (Inr folder, e)),
       getUrl = (\<lambda>folder e. (Inr (''https://drive.google.com/drive/folders/'' @ folder), e)),
       getName = (\<lambda>folder e.
          (case map_of (drive_folders e) folder of
             None \<Rightarrow> Inl ''No item with the given ID could be found.''
           | Some (p, n) \<Rightarrow> Inr n, e)),
       setSharing = (\<lambda>folder a p e. (Inr (), e \<lparr> shared := AList.update folder (a, p) (shared e) \<rparr>)),
       addEditor = (\<lambda>folder email e. (Inr (), e \<lparr> editors := editors e @ [(folder, email)] \<rparr>)),
       createFile = (\<lambda>folder b e.
          (Inr (), e \<lparr> drive_files := drive_files e @ [(folder, b)],
                        create_calls := create_calls e + 1 \<rparr>)),
       toISOString = (\<lambda>e. (Inr ''2024-07-01T09:00:00.000Z'', e)),
       getActiveUserEmail = (\<lambda>e. (Inr ''ops@example.com'', e)),
       getSheetByName = (\<lambda>name e. (Inr (folder_log e \<noteq> None), e)),
       insertSheet = (\<lambda>name e. (Inr (), e \<lparr> folder_log := Some [] \<rparr>)),
       writeHeader = (\<lambda>name row e.
          (Inr (), e \<lparr> folder_log := Some (case folder_log e of None \<Rightarrow> [row] | Some rs \<Rightarrow> row # drop 1 rs) \<rparr>)),
       appendRow = (\<lambda>name row e.
          (Inr (), e \<lparr> folder_log := Some (case folder_log e of None \<Rightarrow> [row] | Some rs \<Rightarrow> rs @ [row]) \<rparr>)) \<rparr>"

definition drive_initial :: mem_drive where
  "drive_initial =
     \<lparr> properties = [(''TRADE_OPERATIONS_FOLDER_ID'', ''root'')],
       drive_folders = [(''root'', [], ''Trade_Operations'')],
       drive_files = [], shared = [], editors = [], folder_log = None, create_calls = 0 \<rparr>"

text \<open>
  The result and the drive after provisioning \<^verbatim>\<open>ORD-2024-07-002\<close> for client
  \<^verbatim>\<open>Acme Ltd\<close> on the initial drive.
\<close>

definition acme_metadata :: blob where
  "acme_metadata =
     \<lparr> blob_data =
         [(''orderId'', ''ORD-2024-07-002''), (''clientName'', ''Acme Ltd''), (''clientEmail'', []),
          (''productCategory'', []), (''createdDate'', ''2024-07-01T09:00:00.000Z''),
          (''folderStructure'', ''Documents,Communications,Attachments,Internal,''),
          (''status'', ''Active'')],
       blob_contentType = ''application/json'',
       blob_name = ''_order_metadata.json'' \<rparr>"

definition acme_log_row :: "string list" where
  "acme_log_row =
     [''2024-07-01T09:00:00.000Z'', ''ORD-2024-07-002'', ''F4'',
      ''https://drive.google.com/drive/folders/F4'', ''Created'', ''ops@example.com'']"

definition acme_result :: order_folder where
  "acme_result =
     \<lparr> error = None, folderId = ''F4'',
       folderUrl = ''https://drive.google.com/drive/folders/F4'',
       folderPath = ''2024/Q3/ORD-2024-07-002_Acme Ltd'',
       subfolders = Some [(''Documents'', ''F5''), (''Communications'', ''F10''),
                          (''Attachments'', ''F14''), (''Internal'', ''F19'')] \<rparr>"

definition drive_after_first :: mem_drive where
  "drive_after_first =
     \<lparr> properties = [(''TRADE_OPERATIONS_FOLDER_ID'', ''root'')],
       drive_folders =
         [(''root'', [], ''Trade_Operations''), (''F1'', ''root'', ''01_Orders''),
          (''F2'', ''F1'', ''2024''), (''F3'', ''F2'', ''Q3''),
          (''F4'', ''F3'', ''ORD-2024-07-002_Acme Ltd''),
          (''F5'', ''F4'', ''Documents''), (''F6'', ''F5'', ''Quotes''),
          (''F7'', ''F5'', ''Contracts''), (''F8'', ''F5'', ''Invoices''),
          (''F9'', ''F5'', ''Certificates''), (''F10'', ''F4'', ''Communications''),
          (''F11'', ''F10'', ''Emails''), (''F12'', ''F10'', ''WeChat_Logs''),
          (''F13'', ''F10'', ''Phone_Records''), (''F14'', ''F4'', ''Attachments''),
          (''F15'', ''F14'', ''Product_Specs''), (''F16'', ''F14'', ''Shipping_Docs''),
          (''F17'', ''F14'', ''Quality_Reports''), (''F18'', ''F14'', ''Photos''),
          (''F19'', ''F4'', ''Internal''), (''F20'', ''F19'', ''Production_Notes''),
          (''F21'', ''F19'', ''Quality_Control''), (''F22'', ''F19'', ''Logistics_Planning'')],
       drive_files = [(''F4'', acme_metadata)],
       shared = [(''F4'', DOMAIN_WITH_LINK, VIEW)], editors = [],
       folder_log =
         Some [[''Timestamp'', ''Order_ID'', ''Folder_ID'', ''Folder_URL'', ''Action'', ''User''],
               acme_log_row],
       create_calls = 23 \<rparr>"

definition error_object :: "string \<Rightarrow> order_folder" where
  "error_object message =
     \<lparr> error = Some message, folderId = ''ERROR_CREATING_FOLDER'', folderUrl = ''ERROR'',
       folderPath = ''ERROR'', subfolders = None \<rparr>"


section \<open>Properties of SmartCache\<close>

lemma js_replace_at_start:
  "take (length p) s = p \<Longrightarrow> js_replace s p rep = rep @ drop (length p) s"
  by (cases s) auto

lemma cache_wf_new: "cache_wf cfg SmartCache_new"
  by (simp add: cache_wf_def SmartCache_new_def)

lemma cache_wf_clear: "cache_wf cfg (SmartCache_clear c)"
  by (simp add: cache_wf_def SmartCache_clear_def)

lemma cache_wf_delete: "cache_wf cfg c \<Longrightarrow> cache_wf cfg (SmartCache_delete cfg key c)"
  by (auto simp: cache_wf_def SmartCache_delete_def Let_def delete_keys distinct_removeAll list_all_iff)

lemma cache_wf_evictOldest: "cache_wf cfg c \<Longrightarrow> cache_wf cfg (SmartCache_evictOldest cfg c)"
  by (simp add: SmartCache_evictOldest_def cache_wf_delete split: option.splits)

lemma cache_wf_insert:
  assumes "cache_wf cfg c"
  shows "cache_wf cfg (c \<lparr> cache := Map_set (keyPrefix cfg @ key) val (cache c),
              timestamps := Map_set (keyPrefix cfg @ key) t (timestamps c),
              accessCount := Map_set (keyPrefix cfg @ key) n (accessCount c),
              statsSize := s \<rparr>)"
  using assms by (auto simp: cache_wf_def update_keys list_all_iff)

lemma cache_wf_set: "cache_wf cfg c \<Longrightarrow> cache_wf cfg (SmartCache_set cfg key val t now c)"
  unfolding SmartCache_set_def Let_def
  by (rule cache_wf_insert) (simp add: cache_wf_evictOldest)

lemma cache_wf_get: "cache_wf cfg c \<Longrightarrow> cache_wf cfg (snd (SmartCache_get cfg key now c))"
proof -
  assume wf: "cache_wf cfg c"
  have d: "cache_wf cfg (SmartCache_delete cfg k c)" for k using wf by (rule cache_wf_delete)
  have m: "cache_wf cfg (c'\<lparr>misses := x\<rparr>) = cache_wf cfg c'" for c' :: "'a SmartCache" and x
    by (simp add: cache_wf_def)
  have h: "Map_has (cache c) k \<Longrightarrow> cache_wf cfg (c\<lparr>accessCount := Map_set k n (accessCount c), hits := x\<rparr>)" for k n x
    using wf by (auto simp: cache_wf_def update_keys Map_has_def map_of_eq_None_iff)
  show ?thesis
    by (simp add: SmartCache_get_def Let_def m d h wf)
qed

lemma cache_wf_apply_call: "cache_wf cfg c \<Longrightarrow> cache_wf cfg (apply_call cfg call c)"
  by (cases call) (simp_all add: cache_wf_set cache_wf_get cache_wf_delete cache_wf_clear)

lemma cache_wf_calls: "cache_wf cfg c \<Longrightarrow> cache_wf cfg (cache_calls cfg calls c)"
  unfolding cache_calls_def
  by (induction calls arbitrary: c) (simp_all add: cache_wf_apply_call)


lemma evict_scan_inv:
  "evict_scan xs (ok, l) = (ok', l') \<Longrightarrow>
     l' \<le> l \<and> (\<forall>(k, n) \<in> set xs. l' \<le> enat n) \<and>
     ((ok', l') = (ok, l) \<or> (\<exists>k n. ok' = Some k \<and> l' = enat n \<and> (k, n) \<in> set xs))"
proof (induction xs arbitrary: ok l)
  case Nil
  then show ?case by simp
next
  case (Cons x xs)
  obtain key count where x: "x = (key, count)" by (cases x)
  show ?case
  proof (cases "enat count < l")
    case True
    with Cons.prems x have "evict_scan xs (Some key, enat count) = (ok', l')" by simp
    from Cons.IH[OF this] have a: "l' \<le> enat count" and b: "\<forall>(k, n) \<in> set xs. l' \<le> enat n"
      and c: "(ok', l') = (Some key, enat count) \<or> (\<exists>k n. ok' = Some k \<and> l' = enat n \<and> (k, n) \<in> set xs)"
      by auto
    from a True have "l' \<le> l" by (meson less_imp_le order_trans)
    moreover from a b x have "\<forall>(k, n) \<in> set (x # xs). l' \<le> enat n" by simp
    moreover from c x have "\<exists>k n. ok' = Some k \<and> l' = enat n \<and> (k, n) \<in> set (x # xs)" by auto
    ultimately show ?thesis by blast
  next
    case False
    with Cons.prems x have "evict_scan xs (ok, l) = (ok', l')" by simp
    from Cons.IH[OF this] have a: "l' \<le> l" and b: "\<forall>(k, n) \<in> set xs. l' \<le> enat n"
      and c: "(ok', l') = (ok, l) \<or> (\<exists>k n. ok' = Some k \<and> l' = enat n \<and> (k, n) \<in> set xs)"
      by auto
    from a False have "l' \<le> enat count" by (meson not_less order_trans)
    with b x have "\<forall>(k, n) \<in> set (x # xs). l' \<le> enat n" by simp
    moreover from c have "(ok', l') = (ok, l) \<or> (\<exists>k n. ok' = Some k \<and> l' = enat n \<and> (k, n) \<in> set (x # xs))" by auto
    ultimately show ?thesis using a by blast
  qed
qed

lemma evict_scan_finds:
  assumes "xs \<noteq> []"
  shows "\<exists>k n. evict_scan xs (None, \<infinity>) = (Some k, enat n) \<and> (k, n) \<in> set xs \<and>
           (\<forall>(k', n') \<in> set xs. n \<le> n')"
proof -
  obtain ok' l' where r: "evict_scan xs (None, \<infinity>) = (ok', l')" by (cases "evict_scan xs (None, \<infinity>)")
  from evict_scan_inv[OF r] have le: "\<forall>(k, n) \<in> set xs. l' \<le> enat n"
    and alt: "(ok', l') = (None, \<infinity>) \<or> (\<exists>k n. ok' = Some k \<and> l' = enat n \<and> (k, n) \<in> set xs)" by auto
  from assms obtain k0 n0 where "(k0, n0) \<in> set xs" by (cases xs) auto
  with le have "l' \<le> enat n0" by auto
  then have "l' \<noteq> \<infinity>" by (cases l') simp_all
  with alt obtain k n where "ok' = Some k" "l' = enat n" "(k, n) \<in> set xs" by auto
  with le r show ?thesis by auto
qed


lemma length_update_le: "length (AList.update k v al) \<le> Suc (length al)"
  by (induction al) auto

lemma length_delete_present:
  "distinct (map fst al) \<Longrightarrow> k \<in> fst ` set al \<Longrightarrow> Suc (length (AList.delete k al)) = length al"
proof (induction al)
  case Nil
  then show ?case by simp
next
  case (Cons p ps)
  show ?case
  proof (cases "fst p = k")
    case True
    with Cons.prems have "k \<notin> fst ` set ps" by auto
    then have "AList.delete k ps = ps" by simp
    with True show ?thesis by simp
  next
    case False
    with Cons show ?thesis by auto
  qed
qed

lemma evictOldest_at_capacity:
  assumes wf: "cache_wf cfg c" and ne: "cache c \<noteq> []" and p: "keyPrefix cfg \<noteq> []"
  shows "\<exists>k n. fst (evict_scan (accessCount c) (None, \<infinity>)) = Some k \<and>
           Map_get (accessCount c) k = Some n \<and>
           (\<forall>(k', n') \<in> set (accessCount c). n \<le> n') \<and>
           Map_has (cache c) k \<and>
           SmartCache_evictOldest cfg c = SmartCache_delete cfg (drop (length (keyPrefix cfg)) k) c \<and>
           keyPrefix cfg @ drop (length (keyPrefix cfg)) k = k \<and>
           Suc (length (cache (SmartCache_evictOldest cfg c))) = length (cache c)"
proof -
  from wf have keys: "map fst (accessCount c) = map fst (cache c)"
    and dist: "distinct (map fst (cache c))"
    and pre: "\<forall>k \<in> set (map fst (cache c)). take (length (keyPrefix cfg)) k = keyPrefix cfg"
    by (auto simp: cache_wf_def list_all_iff)
  from keys ne have "accessCount c \<noteq> []" by auto
  from evict_scan_finds[OF this] obtain k n where
    scan: "evict_scan (accessCount c) (None, \<infinity>) = (Some k, enat n)"
    and mem: "(k, n) \<in> set (accessCount c)"
    and least: "\<forall>(k', n') \<in> set (accessCount c). n \<le> n'" by blast
  from mem have "k \<in> set (map fst (accessCount c))" by force
  with keys have kin: "k \<in> set (map fst (cache c))" by simp
  with pre have tk: "take (length (keyPrefix cfg)) k = keyPrefix cfg" by blast
  with p have kne: "k \<noteq> []" by auto
  from tk have kback: "keyPrefix cfg @ drop (length (keyPrefix cfg)) k = k"
    by (metis append_take_drop_id)
  from tk have rep: "js_replace k (keyPrefix cfg) [] = drop (length (keyPrefix cfg)) k"
    by (simp add: js_replace_at_start)
  from dist keys have "distinct (map fst (accessCount c))" by simp
  with mem have get: "Map_get (accessCount c) k = Some n" by simp
  from kin have has: "Map_has (cache c) k"
    by (auto simp: Map_has_def map_of_eq_None_iff)
  have ev: "SmartCache_evictOldest cfg c = SmartCache_delete cfg (drop (length (keyPrefix cfg)) k) c"
    by (simp add: SmartCache_evictOldest_def scan kne rep)
  from kin have "k \<in> fst ` set (cache c)" by simp
  from length_delete_present[OF dist this]
  have "Suc (length (cache (SmartCache_evictOldest cfg c))) = length (cache c)"
    by (simp add: ev SmartCache_delete_def Let_def kback)
  with scan get least has ev kback show ?thesis by auto
qed

lemma size_set:
  assumes wf: "cache_wf cfg c" and m: "0 < maxEntries cfg" and p: "keyPrefix cfg \<noteq> []"
    and le: "length (cache c) \<le> maxEntries cfg"
  shows "length (cache (SmartCache_set cfg key v t now c)) \<le> maxEntries cfg"
proof (cases "maxEntries cfg \<le> length (cache c)")
  case True
  with m have "cache c \<noteq> []" by auto
  from evictOldest_at_capacity[OF wf this p]
  have "Suc (length (cache (SmartCache_evictOldest cfg c))) = length (cache c)" by blast
  with le have "Suc (length (cache (SmartCache_evictOldest cfg c))) \<le> maxEntries cfg" by simp
  moreover have "length (Map_set (keyPrefix cfg @ key) v (cache (SmartCache_evictOldest cfg c)))
       \<le> Suc (length (cache (SmartCache_evictOldest cfg c)))" by (rule length_update_le)
  ultimately show ?thesis using True by (simp add: SmartCache_set_def Let_def)
next
  case False
  then have "Suc (length (cache c)) \<le> maxEntries cfg" by simp
  moreover have "length (Map_set (keyPrefix cfg @ key) v (cache c)) \<le> Suc (length (cache c))"
    by (rule length_update_le)
  ultimately show ?thesis using False by (simp add: SmartCache_set_def Let_def)
qed

lemma size_delete: "length (cache (SmartCache_delete cfg key c)) \<le> length (cache c)"
  by (simp add: SmartCache_delete_def Let_def length_delete_le)

lemma size_get: "length (cache (snd (SmartCache_get cfg key now c))) \<le> length (cache c)"
  by (simp add: SmartCache_get_def Let_def size_delete)

lemma size_apply_call:
  assumes "cache_wf cfg c" "0 < maxEntries cfg" "keyPrefix cfg \<noteq> []"
    "length (cache c) \<le> maxEntries cfg"
  shows "length (cache (apply_call cfg call c)) \<le> maxEntries cfg"
proof (cases call)
  case (Call_set key v t now)
  with assms show ?thesis by (simp add: size_set)
next
  case (Call_get key now)
  with assms(4) size_get[of cfg key now c] show ?thesis by simp
next
  case (Call_delete key)
  with assms(4) size_delete[of cfg key c] show ?thesis by simp
next
  case Call_clear
  then show ?thesis by (simp add: SmartCache_clear_def)
qed

lemma size_calls:
  assumes "0 < maxEntries cfg" "keyPrefix cfg \<noteq> []"
  shows "cache_wf cfg c \<Longrightarrow> length (cache c) \<le> maxEntries cfg \<Longrightarrow>
         length (cache (cache_calls cfg calls c)) \<le> maxEntries cfg"
  unfolding cache_calls_def
proof (induction calls arbitrary: c)
  case Nil
  then show ?case by simp
next
  case (Cons call calls)
  have "cache_wf cfg (apply_call cfg call c)" using Cons.prems(1) by (rule cache_wf_apply_call)
  moreover have "length (cache (apply_call cfg call c)) \<le> maxEntries cfg"
    using Cons.prems assms by (simp add: size_apply_call)
  ultimately show ?case using Cons.IH by simp
qed

text \<open>
  Claim C5.  Whatever sequence of \<^verbatim>\<open>set\<close>, \<^verbatim>\<open>get\<close>, \<^verbatim>\<open>delete\<close> and \<^verbatim>\<open>clear\<close> calls a
  cache has seen since its construction, it holds at most \<open>maxEntries\<close> entries (for a positive
  maximum and the non-empty key prefix of the configuration).  When it is at capacity, a
  further \<^verbatim>\<open>set\<close> first evicts exactly one entry: the key the scan of \<^verbatim>\<open>evictOldest\<close> returns,
  whose access count is a minimum over all counts in the access-count map; the new entry is
  inserted into the cache without that key.
\<close>

theorem SmartCache_capacity_and_eviction:
  assumes "0 < maxEntries cfg" and "keyPrefix cfg \<noteq> []"
  shows "length (cache (cache_calls cfg calls SmartCache_new)) \<le> maxEntries cfg \<and>
    (maxEntries cfg \<le> length (cache (cache_calls cfg calls SmartCache_new)) \<longrightarrow>
      (\<exists>k n. fst (evict_scan (accessCount (cache_calls cfg calls SmartCache_new)) (None, \<infinity>)) = Some k \<and>
         Map_get (accessCount (cache_calls cfg calls SmartCache_new)) k = Some n \<and>
         (\<forall>(k', n') \<in> set (accessCount (cache_calls cfg calls SmartCache_new)). n \<le> n') \<and>
         Map_has (cache (cache_calls cfg calls SmartCache_new)) k \<and>
         cache (SmartCache_evictOldest cfg (cache_calls cfg calls SmartCache_new))
           = Map_delete k (cache (cache_calls cfg calls SmartCache_new)) \<and>
         Suc (length (cache (SmartCache_evictOldest cfg (cache_calls cfg calls SmartCache_new))))
           = length (cache (cache_calls cfg calls SmartCache_new)) \<and>
         cache (SmartCache_set cfg key v t now (cache_calls cfg calls SmartCache_new))
           = Map_set (keyPrefix cfg @ key) v (Map_delete k (cache (cache_calls cfg calls SmartCache_new)))))"
proof -
  let ?c = "cache_calls cfg calls SmartCache_new"
  have wf: "cache_wf cfg ?c" by (rule cache_wf_calls) (rule cache_wf_new)
  have bound: "length (cache ?c) \<le> maxEntries cfg"
    by (rule size_calls[OF assms cache_wf_new]) (simp add: SmartCache_new_def)
  have "\<exists>k n. fst (evict_scan (accessCount ?c) (None, \<infinity>)) = Some k \<and>
         Map_get (accessCount ?c) k = Some n \<and>
         (\<forall>(k', n') \<in> set (accessCount ?c). n \<le> n') \<and>
         Map_has (cache ?c) k \<and>
         cache (SmartCache_evictOldest cfg ?c) = Map_delete k (cache ?c) \<and>
         Suc (length (cache (SmartCache_evictOldest cfg ?c))) = length (cache ?c) \<and>
         cache (SmartCache_set cfg key v t now ?c)
           = Map_set (keyPrefix cfg @ key) v (Map_delete k (cache ?c))"
    if full: "maxEntries cfg \<le> length (cache ?c)"
  proof -
    from full assms(1) have ne: "cache ?c \<noteq> []" by auto
    from evictOldest_at_capacity[OF wf ne assms(2)] obtain k n where
      a: "fst (evict_scan (accessCount ?c) (None, \<infinity>)) = Some k"
      and b: "Map_get (accessCount ?c) k = Some n"
      and c: "\<forall>(k', n') \<in> set (accessCount ?c). n \<le> n'"
      and d: "Map_has (cache ?c) k"
      and e: "SmartCache_evictOldest cfg ?c = SmartCache_delete cfg (drop (length (keyPrefix cfg)) k) ?c"
      and f: "keyPrefix cfg @ drop (length (keyPrefix cfg)) k = k"
      and g: "Suc (length (cache (SmartCache_evictOldest cfg ?c))) = length (cache ?c)"
      by blast
    from e f have h: "cache (SmartCache_evictOldest cfg ?c) = Map_delete k (cache ?c)"
      by (simp add: SmartCache_delete_def Let_def)
    from full h have "cache (SmartCache_set cfg key v t now ?c)
           = Map_set (keyPrefix cfg @ key) v (Map_delete k (cache ?c))"
      by (simp add: SmartCache_set_def Let_def)
    with a b c d h g show ?thesis by blast
  qed
  with bound show ?thesis by blast
qed

text \<open>
  The cache of maximum size 2 after \<^verbatim>\<open>set(a); set(b); get(a)\<close>: it is full, \<open>a\<close> has count 1
  and \<open>b\<close> count 0, the scan picks \<open>b\<close>, and \<^verbatim>\<open>set(c)\<close> leaves \<open>a\<close> and \<open>c\<close>.
\<close>

theorem SmartCache_capacity_and_eviction_witness:
  "0 < maxEntries cfg_max2 \<and> keyPrefix cfg_max2 \<noteq> [] \<and>
   length (cache (cache_calls cfg_max2 calls_a_b_geta SmartCache_new)) \<le> maxEntries cfg_max2 \<and>
   maxEntries cfg_max2 \<le> length (cache (cache_calls cfg_max2 calls_a_b_geta SmartCache_new)) \<and>
   accessCount (cache_calls cfg_max2 calls_a_b_geta SmartCache_new)
     = [(''trade_ops_a'', 1), (''trade_ops_b'', 0)] \<and>
   fst (evict_scan (accessCount (cache_calls cfg_max2 calls_a_b_geta SmartCache_new)) (None, \<infinity>))
     = Some ''trade_ops_b'' \<and>
   cache (SmartCache_set cfg_max2 ''c'' 3 300000 3 (cache_calls cfg_max2 calls_a_b_geta SmartCache_new))
     = [(''trade_ops_a'', 1), (''trade_ops_c'', 3)]"
proof -
  have h1: "0 < maxEntries cfg_max2" and h2: "keyPrefix cfg_max2 \<noteq> []"
    by (simp_all add: cfg_max2_def PERFORMANCE_CONFIG_caching_def)
  have st: "cache_calls cfg_max2 calls_a_b_geta SmartCache_new =
      \<lparr> cache = [(''trade_ops_a'', 1), (''trade_ops_b'', 2)],
        timestamps = [(''trade_ops_a'', 300000), (''trade_ops_b'', 300001)],
        accessCount = [(''trade_ops_a'', 1), (''trade_ops_b'', 0)],
        hits = 1, misses = 0, statsSize = 2 \<rparr>"
    by (simp add: cfg_max2_def PERFORMANCE_CONFIG_caching_def calls_a_b_geta_def cache_calls_def
        SmartCache_new_def SmartCache_set_def SmartCache_get_def Map_has_def Let_def)
  from SmartCache_capacity_and_eviction[OF h1 h2, of calls_a_b_geta "''c''" 3 300000 3]
  have bound: "length (cache (cache_calls cfg_max2 calls_a_b_geta SmartCache_new)) \<le> maxEntries cfg_max2"
    by blast
  have full: "maxEntries cfg_max2 \<le> length (cache (cache_calls cfg_max2 calls_a_b_geta SmartCache_new))"
    by (simp add: st) (simp add: cfg_max2_def)
  have scan: "fst (evict_scan (accessCount (cache_calls cfg_max2 calls_a_b_geta SmartCache_new)) (None, \<infinity>))
     = Some ''trade_ops_b''"
    by (simp add: st zero_enat_def one_enat_def)
  have ins: "cache (SmartCache_set cfg_max2 ''c'' 3 300000 3 (cache_calls cfg_max2 calls_a_b_geta SmartCache_new))
     = [(''trade_ops_a'', 1), (''trade_ops_c'', 3)]"
    unfolding st
    by (simp add: cfg_max2_def PERFORMANCE_CONFIG_caching_def SmartCache_set_def
        SmartCache_evictOldest_def SmartCache_delete_def Let_def zero_enat_def one_enat_def)
  from h1 h2 bound full scan ins show ?thesis by (simp add: st)
qed

lemma update_mem: "(k, v) \<in> set (AList.update k v al)"
  by (induction al) auto

lemma evict_scan_zero:
  assumes "(k, 0) \<in> set xs"
  shows "snd (evict_scan xs (None, \<infinity>)) = 0"
proof -
  obtain ok' l' where r: "evict_scan xs (None, \<infinity>) = (ok', l')" by (cases "evict_scan xs (None, \<infinity>)")
  from evict_scan_inv[OF r] assms have "l' \<le> enat 0" by auto
  then have "l' = 0" by (cases l') (simp_all add: zero_enat_def)
  with r show ?thesis by simp
qed

text \<open>
  Claim C9.  Every \<^verbatim>\<open>set\<close> stores the new entry, whether the key was present or not and
  whatever count it had accumulated: afterwards the entry map holds the new value under the
  prefixed key, the expiry map holds the time of the call plus the time to live, and the
  access count stored for the key is 0.  That 0 is the lowest count the scan of the next
  eviction finds: the key is among the entries with the minimum count.
\<close>

theorem SmartCache_set_resets_access_count:
  "Map_get (cache (SmartCache_set cfg key v t now c)) (keyPrefix cfg @ key) = Some v \<and>
   Map_get (timestamps (SmartCache_set cfg key v t now c)) (keyPrefix cfg @ key) = Some (now + t) \<and>
   Map_get (accessCount (SmartCache_set cfg key v t now c)) (keyPrefix cfg @ key) = Some 0 \<and>
   snd (evict_scan (accessCount (SmartCache_set cfg key v t now c)) (None, \<infinity>)) = 0"
proof -
  have "(keyPrefix cfg @ key, 0) \<in> set (accessCount (SmartCache_set cfg key v t now c))"
    by (simp add: SmartCache_set_def Let_def update_mem)
  then have "snd (evict_scan (accessCount (SmartCache_set cfg key v t now c)) (None, \<infinity>)) = 0"
    by (rule evict_scan_zero)
  moreover have "Map_get (accessCount (SmartCache_set cfg key v t now c)) (keyPrefix cfg @ key) = Some 0"
    by (simp add: SmartCache_set_def Let_def update_conv')
  moreover have "Map_get (cache (SmartCache_set cfg key v t now c)) (keyPrefix cfg @ key) = Some v"
    by (simp add: SmartCache_set_def Let_def update_conv')
  moreover have "Map_get (timestamps (SmartCache_set cfg key v t now c)) (keyPrefix cfg @ key) = Some (now + t)"
    by (simp add: SmartCache_set_def Let_def update_conv')
  ultimately show ?thesis by simp
qed

text \<open>
  What \<^verbatim>\<open>get\<close> does with an expired entry, in general: it reports a miss, and the
  \<^verbatim>\<open>delete\<close> it calls removes the key with the prefix put in front of it a second time.
\<close>

lemma SmartCache_get_expired:
  assumes "Map_has (cache c) (keyPrefix cfg @ key)"
    and "Map_get (timestamps c) (keyPrefix cfg @ key) = Some expiry" and "expiry < now"
  shows "SmartCache_get cfg key now c =
           (None, (SmartCache_delete cfg (keyPrefix cfg @ key) c)
                    \<lparr> misses := misses c + 1 \<rparr>)"
    and "cache (snd (SmartCache_get cfg key now c))
           = Map_delete (keyPrefix cfg @ keyPrefix cfg @ key) (cache c)"
  using assms by (simp_all add: SmartCache_get_def SmartCache_delete_def Let_def)

lemma SmartCache_get_expired_keeps_entry:
  assumes "Map_has (cache c) (keyPrefix cfg @ key)"
    and "Map_get (timestamps c) (keyPrefix cfg @ key) = Some expiry" and "expiry < now"
    and "keyPrefix cfg \<noteq> []"
  shows "Map_get (cache (snd (SmartCache_get cfg key now c))) (keyPrefix cfg @ key)
           = Map_get (cache c) (keyPrefix cfg @ key)"
proof -
  from assms(4) have "keyPrefix cfg @ key \<noteq> keyPrefix cfg @ keyPrefix cfg @ key" by simp
  then show ?thesis
    by (simp add: SmartCache_get_expired(2)[OF assms(1-3)])
qed

text \<open>
  Claim C2, evaluated.  With the configuration of the source, \<^verbatim>\<open>set("k", 42, 1000)\<close> at
  time 0 followed by \<^verbatim>\<open>get("k")\<close> at time 1001, one millisecond after the entry expired:
  \<^verbatim>\<open>get\<close> returns \<^verbatim>\<open>null\<close> and counts a miss, but the entry is still in the entry map, the
  expiry map and the access-count map.  The claim has it purged from all three.  The
  \<^verbatim>\<open>delete\<close> that \<^verbatim>\<open>evictOldest\<close> calls strips the prefix first; the one in \<^verbatim>\<open>get\<close> does not.
\<close>

theorem SmartCache_get_expired_not_purged:
  "fst (SmartCache_get PERFORMANCE_CONFIG_caching ''k'' 1001
          (SmartCache_set PERFORMANCE_CONFIG_caching ''k'' (42::nat) 1000 0 SmartCache_new)) = None \<and>
   snd (SmartCache_get PERFORMANCE_CONFIG_caching ''k'' 1001
          (SmartCache_set PERFORMANCE_CONFIG_caching ''k'' (42::nat) 1000 0 SmartCache_new))
     = \<lparr> cache = [(''trade_ops_k'', 42)], timestamps = [(''trade_ops_k'', 1000)],
         accessCount = [(''trade_ops_k'', 0)], hits = 0, misses = 1, statsSize = 1 \<rparr>"
  by (simp add: PERFORMANCE_CONFIG_caching_def SmartCache_new_def SmartCache_set_def
      SmartCache_get_def SmartCache_delete_def Map_has_def Let_def)

section \<open>Properties of BatchProcessor\<close>

lemma ceil_step:
  assumes "0 < B" "0 < (d::nat)"
  shows "(d + B - 1) div B = Suc ((d - B + B - 1) div B)"
proof (cases "d \<le> B")
  case True
  then have "d - B + B - 1 = B - 1" by simp
  then have r: "(d - B + B - 1) div B = 0" using assms(1) by simp
  have "(d + B - 1) div B = 1"
  proof (rule div_nat_eqI)
    show "B * 1 \<le> d + B - 1" using assms by simp
    show "d + B - 1 < B * Suc 1" using True assms by simp
  qed
  with r show ?thesis by simp
next
  case False
  define x where "x = d - B + B - 1"
  have e: "d + B - 1 = x + B" using False assms by (simp add: x_def)
  have "(x + B) div B = Suc (x div B)" using assms(1) by simp
  then show ?thesis unfolding e x_def .
qed

lemma slice_then_rest: "js_slice items i (i + B) @ drop (i + B) items = drop i items"
  using append_take_drop_id[of B "drop i items"]
  by (simp add: js_slice_def add.commute)

lemma createBatches_loop_returns:
  assumes B: "0 < B"
  shows "\<exists>chunks. createBatches_loop items B i acc = Some (acc @ chunks) \<and>
           length chunks = (length items - i + B - 1) div B \<and>
           concat chunks = drop i items \<and>
           (\<forall>c \<in> set chunks. c \<noteq> [] \<and> length c \<le> B)"
proof (induction "length items - i" arbitrary: i acc rule: less_induct)
  case less
  show ?case
  proof (cases "i < length items")
    case False
    then have "createBatches_loop items B i acc = Some (acc @ [])"
      by (subst createBatches_loop.simps) simp
    moreover from False B have "(length items - i + B - 1) div B = 0" by simp
    moreover from False have "drop i items = []" by simp
    ultimately show ?thesis by (intro exI[of _ "[]"]) simp
  next
    case True
    let ?s = "js_slice items i (i + B)"
    from True B have "length items - (i + B) < length items - i" by simp
    from less[OF this, of "acc @ [?s]"] obtain chunks where
      r: "createBatches_loop items B (i + B) (acc @ [?s]) = Some ((acc @ [?s]) @ chunks)"
      and l: "length chunks = (length items - (i + B) + B - 1) div B"
      and c: "concat chunks = drop (i + B) items"
      and b: "\<forall>c \<in> set chunks. c \<noteq> [] \<and> length c \<le> B" by blast
    have "createBatches_loop items B i acc = createBatches_loop items B (i + B) (acc @ [?s])"
      using True by (subst createBatches_loop.simps) simp
    with r have 1: "createBatches_loop items B i acc = Some (acc @ (?s # chunks))" by simp
    from True have "0 < length items - i" by simp
    from ceil_step[OF B this] l
    have 2: "length (?s # chunks) = (length items - i + B - 1) div B" by simp
    from c slice_then_rest[of items i B] have 3: "concat (?s # chunks) = drop i items" by simp
    from True B have "?s \<noteq> [] \<and> length ?s \<le> B" by (simp add: js_slice_def)
    with b have 4: "\<forall>c \<in> set (?s # chunks). c \<noteq> [] \<and> length c \<le> B" by simp
    from 1 2 3 4 show ?thesis by blast
  qed
qed

lemma createBatches_returns:
  assumes "0 < B"
  shows "\<exists>chunks. createBatches items B = Some chunks \<and>
           length chunks = (length items + B - 1) div B \<and>
           concat chunks = items \<and>
           (\<forall>c \<in> set chunks. c \<noteq> [] \<and> length c \<le> B)"
  using createBatches_loop_returns[OF assms, of items 0 "[]"]
  by (simp add: createBatches_def)


lemma process_chunk:
  assumes B: "0 < B"
  shows "i + n \<le> length ops \<Longrightarrow> i mod B + n \<le> B \<Longrightarrow>
     \<exists>s. processSheetsData cfg api (take n (drop i ops)) (state_before cfg api B ops w i)
           = (map (\<lambda>j. entry (fst (sheets_switch cfg api (ops ! j) (state_before cfg api B ops w j))))
                [i..<i + n], s) \<and>
         (n = 0 \<longrightarrow> s = state_before cfg api B ops w i) \<and>
         (0 < n \<longrightarrow> state_before cfg api B ops w (i + n) =
            (if (i + n) mod B = 0 \<or> i + n = length ops
             then s \<lparr> env := setTimeout api 100 (env s) \<rparr> else s))"
proof (induction n arbitrary: i)
  case 0
  then show ?case by simp
next
  case (Suc n)
  let ?sb = "state_before cfg api B ops w"
  let ?g = "\<lambda>j. entry (fst (sheets_switch cfg api (ops ! j) (?sb j)))"
  from Suc.prems have i: "i < length ops" by simp
  then have tk: "take (Suc n) (drop i ops) = ops ! i # take n (drop (Suc i) ops)"
    by (simp add: Cons_nth_drop_Suc[symmetric])
  obtain r w1 where sw: "sheets_switch cfg api (ops ! i) (?sb i) = (r, w1)"
    by (cases "sheets_switch cfg api (ops ! i) (?sb i)")
  have up: "[i..<i + Suc n] = i # [Suc i..<Suc i + n]"
    by (simp add: upt_conv_Cons)
  show ?case
  proof (cases "n = 0")
    case True
    have "processSheetsData cfg api (take (Suc n) (drop i ops)) (?sb i) = (map ?g [i..<i + Suc n], w1)"
      unfolding tk up using True sw by simp
    moreover have "?sb (i + Suc n) =
            (if (i + Suc n) mod B = 0 \<or> i + Suc n = length ops
             then w1 \<lparr> env := setTimeout api 100 (env w1) \<rparr> else w1)"
      using True sw by (simp add: Let_def)
    ultimately show ?thesis by blast
  next
    case False
    with Suc.prems have lt: "i mod B + 1 < B" and ne: "Suc i \<noteq> length ops" by simp_all
    from lt have m: "Suc i mod B = i mod B + 1" by (simp add: mod_Suc)
    with sw ne have sb1: "?sb (Suc i) = w1" by (simp add: Let_def)
    from Suc.prems m have p: "Suc i + n \<le> length ops" "Suc i mod B + n \<le> B" by simp_all
    from Suc.IH[OF p] False obtain s where
      pr: "processSheetsData cfg api (take n (drop (Suc i) ops)) (?sb (Suc i)) = (map ?g [Suc i..<Suc i + n], s)"
      and st: "?sb (Suc i + n) =
            (if (Suc i + n) mod B = 0 \<or> Suc i + n = length ops
             then s \<lparr> env := setTimeout api 100 (env s) \<rparr> else s)"
      by auto
    have "processSheetsData cfg api (take (Suc n) (drop i ops)) (?sb i) = (map ?g [i..<i + Suc n], s)"
      unfolding tk up using sw pr sb1 by simp
    moreover from st have "?sb (i + Suc n) =
            (if (i + Suc n) mod B = 0 \<or> i + Suc n = length ops
             then s \<lparr> env := setTimeout api 100 (env s) \<rparr> else s)" by simp
    ultimately show ?thesis by blast
  qed
qed

lemma take_slice: "js_slice ops i (i + B) = take (min B (length ops - i)) (drop i ops)"
  by (simp add: js_slice_def min_def)

lemma batches_follow_reference:
  assumes B: "0 < B"
  shows "i mod B = 0 \<Longrightarrow> i \<le> length ops \<Longrightarrow>
     \<exists>chunks. createBatches_loop ops B i acc = Some (acc @ chunks) \<and>
       sheets_batches cfg api chunks (state_before cfg api B ops w i)
         = (map (\<lambda>j. entry (fst (sheets_switch cfg api (ops ! j) (state_before cfg api B ops w j))))
              [i..<length ops],
            state_before cfg api B ops w (length ops))"
proof (induction "length ops - i" arbitrary: i acc rule: less_induct)
  case less
  let ?sb = "state_before cfg api B ops w"
  let ?g = "\<lambda>j. entry (fst (sheets_switch cfg api (ops ! j) (?sb j)))"
  let ?N = "length ops"
  show ?case
  proof (cases "i < ?N")
    case False
    with less.prems have "i = ?N" by simp
    moreover have "createBatches_loop ops B i acc = Some (acc @ [])"
      using False by (subst createBatches_loop.simps) simp
    ultimately show ?thesis by (intro exI[of _ "[]"]) simp
  next
    case True
    define n where "n = min B (?N - i)"
    let ?s = "js_slice ops i (i + B)"
    have s: "?s = take n (drop i ops)" by (simp add: take_slice n_def)
    from True B have npos: "0 < n" and nle: "i + n \<le> ?N" and nB: "i mod B + n \<le> B"
      using less.prems(1) by (simp_all add: n_def)
    from process_chunk[OF B nle nB, of cfg api w] npos obtain s1 where
      pr: "processSheetsData cfg api ?s (?sb i) = (map ?g [i..<i + n], s1)"
      and st: "?sb (i + n) = (if (i + n) mod B = 0 \<or> i + n = ?N
                               then s1 \<lparr> env := setTimeout api 100 (env s1) \<rparr> else s1)"
      unfolding s by auto
    have boundary: "(i + n) mod B = 0 \<or> i + n = ?N"
    proof (cases "B \<le> ?N - i")
      case True
      then have "n = B" by (simp add: n_def)
      with less.prems(1) show ?thesis by simp
    next
      case False
      then have "n = ?N - i" by (simp add: n_def)
      with \<open>i < ?N\<close> show ?thesis by simp
    qed
    with st have st': "?sb (i + n) = s1 \<lparr> env := setTimeout api 100 (env s1) \<rparr>" by simp
    have step: "createBatches_loop ops B i acc = createBatches_loop ops B (i + B) (acc @ [?s])"
      using True by (subst createBatches_loop.simps) simp
    show ?thesis
    proof (cases "i + B < ?N")
      case more: True
      then have nB': "n = B" by (simp add: n_def)
      from more B have dec: "?N - (i + B) < ?N - i" by simp
      from less.prems(1) have m: "(i + B) mod B = 0" by simp
      from more have le: "i + B \<le> ?N" by simp
      from less.hyps[OF dec m le, of "acc @ [?s]"] obtain chunks where
        c: "createBatches_loop ops B (i + B) (acc @ [?s]) = Some ((acc @ [?s]) @ chunks)"
        and r: "sheets_batches cfg api chunks (?sb (i + B)) = (map ?g [i + B..<?N], ?sb ?N)"
        by blast
      from step c have 1: "createBatches_loop ops B i acc = Some (acc @ (?s # chunks))" by simp
      have "[i..<?N] = [i..<i + B] @ [i + B..<?N]"
        using le upt_add_eq_append[of i "i + B" "?N - (i + B)"] by simp
      then have split: "map ?g [i..<?N] = map ?g [i..<i + B] @ map ?g [i + B..<?N]" by simp
      from pr st' r nB' have "sheets_batches cfg api (?s # chunks) (?sb i) = (map ?g [i..<?N], ?sb ?N)"
        by (simp add: split)
      with 1 show ?thesis by blast
    next
      case last: False
      then have "createBatches_loop ops B (i + B) (acc @ [?s]) = Some (acc @ [?s])"
        by (subst createBatches_loop.simps) simp
      with step have 1: "createBatches_loop ops B i acc = Some (acc @ [?s])" by simp
      from last True have nN: "i + n = ?N" by (simp add: n_def)
      from pr st' nN have "sheets_batches cfg api [?s] (?sb i) = (map ?g [i..<?N], ?sb ?N)"
        by simp
      with 1 show ?thesis by blast
    qed
  qed
qed

lemma unknown_kind_entry:
  "op_type x \<notin> {''read'', ''write'', ''update''} \<Longrightarrow>
     entry (fst (sheets_switch cfg api x w)) = Failure (''Unknown operation type: '' @ op_type x)"
  by (simp add: sheets_switch_def entry_def)

text \<open>
  Claim C6, amended.  For a positive chunk size \<open>B\<close> and \<open>N\<close> operations, \<^verbatim>\<open>createBatches\<close>
  returns, and returns \<open>(N + B - 1) div B\<close> chunks, the ceiling of \<open>N / B\<close>; the chunks are
  non-empty, hold at most \<open>B\<close> operations and concatenate to the list of operations.
  \<^verbatim>\<open>batchSheetsOperations\<close> returns too.  Handing the chunks to \<^verbatim>\<open>processSheetsData\<close> one
  after another, with the pause after each, runs every operation exactly once and in order:
  the result holds \<open>N\<close> entries, the \<open>i\<close>-th being the entry of the \<open>i\<close>-th operation run in
  the state that its predecessors and the pauses after every \<open>B\<close>-th operation left (the
  failure entry for an unknown kind), and the state at the end is that of the reference run.
  The remote calls are those of the single operations; there is no call per chunk.
\<close>

theorem batch_chunking:
  assumes "0 < sheetsAPI sizes"
  shows "\<exists>chunks results w'.
           createBatches operations (sheetsAPI sizes) = Some chunks \<and>
           length chunks = (length operations + sheetsAPI sizes - 1) div sheetsAPI sizes \<and>
           concat chunks = operations \<and>
           (\<forall>c \<in> set chunks. c \<noteq> [] \<and> length c \<le> sheetsAPI sizes) \<and>
           batchSheetsOperations cfg sizes api operations w = Some (results, w') \<and>
           length results = length operations \<and>
           (\<forall>i < length operations.
              results ! i = entry (fst (sheets_switch cfg api (operations ! i)
                                     (state_before cfg api (sheetsAPI sizes) operations w i))) \<and>
              (op_type (operations ! i) \<notin> {''read'', ''write'', ''update''} \<longrightarrow>
                 results ! i = Failure (''Unknown operation type: '' @ op_type (operations ! i)))) \<and>
           w' = state_before cfg api (sheetsAPI sizes) operations w (length operations)"
proof -
  let ?B = "sheetsAPI sizes"
  let ?sb = "state_before cfg api ?B operations w"
  let ?g = "\<lambda>j. entry (fst (sheets_switch cfg api (operations ! j) (?sb j)))"
  from createBatches_returns[OF assms, of operations] obtain chunks where
    c: "createBatches operations ?B = Some chunks"
    and l: "length chunks = (length operations + ?B - 1) div ?B"
    and k: "concat chunks = operations"
    and s: "\<forall>c \<in> set chunks. c \<noteq> [] \<and> length c \<le> ?B" by blast
  from batches_follow_reference[OF assms, of 0 operations "[]" cfg api w] obtain chunks' where
    c': "createBatches_loop operations ?B 0 [] = Some chunks'"
    and r: "sheets_batches cfg api chunks' w = (map ?g [0..<length operations], ?sb (length operations))"
    by auto
  from c c' have "chunks' = chunks" by (simp add: createBatches_def)
  with r c have b: "batchSheetsOperations cfg sizes api operations w
      = Some (map ?g [0..<length operations], ?sb (length operations))"
    by (simp add: batchSheetsOperations_def)
  have n: "length (map ?g [0..<length operations]) = length operations" by simp
  have e: "\<forall>i < length operations.
      map ?g [0..<length operations] ! i = ?g i \<and>
      (op_type (operations ! i) \<notin> {''read'', ''write'', ''update''} \<longrightarrow>
         map ?g [0..<length operations] ! i = Failure (''Unknown operation type: '' @ op_type (operations ! i)))"
    by (simp add: unknown_kind_entry)
  from c l k s b n e show ?thesis by blast
qed

lemmas batch_run_defs =
  PERFORMANCE_CONFIG_caching_def mem_SpreadsheetApp_def world_open_def world_protected_def
  read_A1_def write_A1_def unknown_op_def sheets_switch_def readSheetsData_def
  writeSheetsData_def and_then_def remote_def invalidateSheetCache_def invalidate_step_def
  entry_def SmartCache_new_def SmartCache_get_def SmartCache_set_def SmartCache_delete_def
  Map_has_def Let_def

lemma createBatches_three_ops:
  "createBatches three_ops (sheetsAPI sizes_two) = Some [[read_A1, unknown_op], [read_A1]]"
  by (simp add: createBatches_def createBatches_loop.simps js_slice_def three_ops_def
      sizes_two_def PERFORMANCE_CONFIG_batchSizes_def)

lemma processSheetsData_three_ops:
  "fst (processSheetsData PERFORMANCE_CONFIG_caching mem_SpreadsheetApp three_ops world_open)
     = [Success (Rows [[CStr ''old'']]), Failure ''Unknown operation type: delete'',
        Success (Rows [[CStr ''old'']])]"
  by (simp add: batch_run_defs three_ops_def)

lemma batch_three_ops:
  "\<exists>w'. batchSheetsOperations PERFORMANCE_CONFIG_caching sizes_two mem_SpreadsheetApp three_ops world_open
     = Some ([Success (Rows [[CStr ''old'']]), Failure ''Unknown operation type: delete'',
              Success (Rows [[CStr ''old'']])], w') \<and> clock (env w') = 200"
  by (simp add: batchSheetsOperations_def createBatches_three_ops) (simp add: batch_run_defs)

text \<open>
  Claim C6, as stated, fails.  Three writes at the chunk size of the source, 100, form one
  chunk, and the service that counts its remote calls has received nine when the batch
  returns: each operation opens the sheet, gets its range and sets the values by calls of
  its own.  The claim has one physical call per chunk.
\<close>

theorem one_chunk_many_remote_calls:
  "createBatches three_writes (sheetsAPI PERFORMANCE_CONFIG_batchSizes) = Some [three_writes] \<and>
   (length three_writes + sheetsAPI PERFORMANCE_CONFIG_batchSizes - 1)
      div sheetsAPI PERFORMANCE_CONFIG_batchSizes = 1 \<and>
   batchSheetsOperations PERFORMANCE_CONFIG_caching PERFORMANCE_CONFIG_batchSizes
       counting_SpreadsheetApp three_writes no_calls_yet
     = Some ([Success (RowsUpdated 1), Success (RowsUpdated 1), Success (RowsUpdated 1)],
             \<lparr> smartCache = SmartCache_new, env = 9 \<rparr>)"
proof -
  have c: "createBatches three_writes (sheetsAPI PERFORMANCE_CONFIG_batchSizes) = Some [three_writes]"
    by (simp add: createBatches_def createBatches_loop.simps js_slice_def three_writes_def
        PERFORMANCE_CONFIG_batchSizes_def)
  have n: "(length three_writes + sheetsAPI PERFORMANCE_CONFIG_batchSizes - 1)
      div sheetsAPI PERFORMANCE_CONFIG_batchSizes = 1"
    by (simp add: three_writes_def PERFORMANCE_CONFIG_batchSizes_def)
  have r: "batchSheetsOperations PERFORMANCE_CONFIG_caching PERFORMANCE_CONFIG_batchSizes
       counting_SpreadsheetApp three_writes no_calls_yet
     = Some ([Success (RowsUpdated 1), Success (RowsUpdated 1), Success (RowsUpdated 1)],
             \<lparr> smartCache = SmartCache_new, env = 9 \<rparr>)"
    by (simp add: batchSheetsOperations_def c)
       (simp add: three_writes_def counting_SpreadsheetApp_def no_calls_yet_def write_A1_def
          sheets_switch_def writeSheetsData_def and_then_def remote_def invalidateSheetCache_def
          entry_def SmartCache_new_def)
  from c n r show ?thesis by blast
qed

text \<open>
  Three operations at chunk size 2 on the in-memory service: two chunks, three entries, the
  unknown kind reported at position 1, and the clock advanced by the two pauses.
\<close>

theorem batch_chunking_witness:
  "0 < sheetsAPI sizes_two \<and>
   createBatches three_ops (sheetsAPI sizes_two) = Some [[read_A1, unknown_op], [read_A1]] \<and>
   (length three_ops + sheetsAPI sizes_two - 1) div sheetsAPI sizes_two = 2 \<and>
   1 < length three_ops \<and>
   op_type (three_ops ! 1) \<notin> {''read'', ''write'', ''update''} \<and>
   (\<exists>results w'.
      batchSheetsOperations PERFORMANCE_CONFIG_caching sizes_two mem_SpreadsheetApp three_ops world_open
        = Some (results, w') \<and>
      results = [Success (Rows [[CStr ''old'']]), Failure ''Unknown operation type: delete'',
                 Success (Rows [[CStr ''old'']])] \<and>
      results ! 1 = Failure (''Unknown operation type: '' @ op_type (three_ops ! 1)) \<and>
      w' = state_before PERFORMANCE_CONFIG_caching mem_SpreadsheetApp (sheetsAPI sizes_two)
             three_ops world_open (length three_ops) \<and>
      clock (env w') = 200)"
proof -
  have h: "0 < sheetsAPI sizes_two"
    by (simp add: sizes_two_def)
  have i: "1 < length three_ops" and u: "op_type (three_ops ! 1) \<notin> {''read'', ''write'', ''update''}"
    by (simp_all add: three_ops_def unknown_op_def)
  from batch_chunking[OF h, of three_ops PERFORMANCE_CONFIG_caching mem_SpreadsheetApp world_open]
  obtain chunks results w' where
    r: "batchSheetsOperations PERFORMANCE_CONFIG_caching sizes_two mem_SpreadsheetApp three_ops world_open
              = Some (results, w')"
    and e: "\<forall>i < length three_ops.
              results ! i = entry (fst (sheets_switch PERFORMANCE_CONFIG_caching mem_SpreadsheetApp (three_ops ! i)
                                     (state_before PERFORMANCE_CONFIG_caching mem_SpreadsheetApp (sheetsAPI sizes_two) three_ops world_open i))) \<and>
              (op_type (three_ops ! i) \<notin> {''read'', ''write'', ''update''} \<longrightarrow>
                 results ! i = Failure (''Unknown operation type: '' @ op_type (three_ops ! i)))"
    and w: "w' = state_before PERFORMANCE_CONFIG_caching mem_SpreadsheetApp (sheetsAPI sizes_two)
             three_ops world_open (length three_ops)"
    by blast
  from e i u have f: "results ! 1 = Failure (''Unknown operation type: '' @ op_type (three_ops ! 1))"
    by blast
  from batch_three_ops r have v: "results = [Success (Rows [[CStr ''old'']]), Failure ''Unknown operation type: delete'',
                 Success (Rows [[CStr ''old'']])]" and c: "clock (env w') = 200"
    by auto
  have n: "(length three_ops + sheetsAPI sizes_two - 1) div sheetsAPI sizes_two = 2"
    by (simp add: three_ops_def sizes_two_def)
  from h createBatches_three_ops n i u r v f w c show ?thesis by blast
qed

lemma processSheetsData_append:
  "processSheetsData cfg api (pre @ post) w =
     (fst (processSheetsData cfg api pre w) @
        fst (processSheetsData cfg api post (snd (processSheetsData cfg api pre w))),
      snd (processSheetsData cfg api post (snd (processSheetsData cfg api pre w))))"
proof (induction pre arbitrary: w)
  case Nil
  then show ?case by simp
next
  case (Cons x pre)
  obtain r w1 where s: "sheets_switch cfg api x w = (r, w1)" by (cases "sheets_switch cfg api x w")
  show ?case by (simp add: s Cons.IH[of w1] split: prod.splits)
qed

lemma processSheetsData_length: "length (fst (processSheetsData cfg api batch w)) = length batch"
proof (induction batch arbitrary: w)
  case Nil
  then show ?case by simp
next
  case (Cons x batch)
  obtain r w1 where s: "sheets_switch cfg api x w = (r, w1)" by (cases "sheets_switch cfg api x w")
  from Cons.IH[of w1] show ?case by (auto simp: s split: prod.splits)
qed

lemma write_throws:
  "first_throw [openById api s, getRange api s r, setValues api s r vs] (env w) = Some message \<Longrightarrow>
   fst (and_then (remote (openById api s)) (\<lambda>_.
        and_then (remote (getRange api s r)) (\<lambda>_.
        and_then (remote (setValues api s r vs)) k)) w) = Inl message"
  by (auto simp: and_then_def remote_def split: prod.splits sum.splits)

lemma remote_error_thrown:
  assumes "first_throw (remote_calls cfg api x w) (env w) = Some message"
  shows "fst (sheets_switch cfg api x w) = Inl message"
proof -
  consider (rd) "op_type x = ''read''" | (wr) "op_type x = ''write''" | (up) "op_type x = ''update''"
    | (un) "op_type x \<notin> {''read'', ''write'', ''update''}" by auto
  then show ?thesis
  proof cases
    case rd
    obtain cached c1 where g: "SmartCache_get cfg (''sheets_read_'' @ op_sheetId x @ ''_'' @ op_range x)
                   (Date_now api (env w)) (smartCache w) = (cached, c1)"
      by (cases "SmartCache_get cfg (''sheets_read_'' @ op_sheetId x @ ''_'' @ op_range x)
                   (Date_now api (env w)) (smartCache w)")
    from assms rd g have miss: "cached = None"
      by (cases cached) (simp_all add: remote_calls_def)
    with assms rd g have ft: "first_throw [openById api (op_sheetId x),
               getRange api (op_sheetId x) (op_range x),
               forget (getValues api (op_sheetId x) (op_range x))] (env w) = Some message"
      by (simp add: remote_calls_def)
    then show ?thesis using rd g miss
      by (auto simp: sheets_switch_def readSheetsData_def and_then_def remote_def forget_def Let_def
          split: prod.splits sum.splits)
  next
    case wr
    with assms show ?thesis
      by (simp add: sheets_switch_def writeSheetsData_def remote_calls_def write_throws)
  next
    case up
    with assms show ?thesis
      by (auto simp: sheets_switch_def updateSheetsData_def remote_calls_def and_then_def remote_def
          split: prod.splits sum.splits option.splits)
  next
    case un
    with assms show ?thesis by (simp add: remote_calls_def)
  qed
qed

text \<open>
  Claim C7, as stated, fails.  On the in-memory service, the chunk \<^verbatim>\<open>[write A1, read A1]\<close> is
  run twice from the same content, once with the sheet refusing the write and once with the
  write succeeding.  The failing write gets its \<^verbatim>\<open>{success: false, error}\<close> entry, but the
  entry reported for the read is not what it is when the write succeeds: the read returns
  the old rows in one run and the new rows in the other.
\<close>

theorem chunk_outcome_depends_on_failed_write:
  "fst (processSheetsData PERFORMANCE_CONFIG_caching mem_SpreadsheetApp [write_A1, read_A1] world_protected)
     = [Failure ''You are trying to edit a protected cell or object.'',
        Success (Rows [[CStr ''old'']])] \<and>
   fst (processSheetsData PERFORMANCE_CONFIG_caching mem_SpreadsheetApp [write_A1, read_A1] world_open)
     = [Success (RowsUpdated 1), Success (Rows [[CStr ''new'']])] \<and>
   fst (processSheetsData PERFORMANCE_CONFIG_caching mem_SpreadsheetApp [write_A1, read_A1] world_protected) ! 1
     \<noteq> fst (processSheetsData PERFORMANCE_CONFIG_caching mem_SpreadsheetApp [write_A1, read_A1] world_open) ! 1"
proof -
  have a: "fst (processSheetsData PERFORMANCE_CONFIG_caching mem_SpreadsheetApp [write_A1, read_A1] world_protected)
     = [Failure ''You are trying to edit a protected cell or object.'',
        Success (Rows [[CStr ''old'']])]"
    by (simp add: batch_run_defs)
  have b: "fst (processSheetsData PERFORMANCE_CONFIG_caching mem_SpreadsheetApp [write_A1, read_A1] world_open)
     = [Success (RowsUpdated 1), Success (Rows [[CStr ''new'']])]"
    by (simp add: batch_run_defs)
  show ?thesis unfolding a b by simp
qed

text \<open>
  Claim C7, amended.  A sheets chunk never throws and returns one entry per operation.  In a
  chunk \<open>pre @ x # post\<close> the entries of \<open>pre\<close> are those of \<open>pre\<close> run alone; the entry of
  \<open>x\<close>, at position \<open>length pre\<close>, is the outcome of its own \<^verbatim>\<open>switch\<close> and the only entry
  \<open>x\<close> contributes: a \<^verbatim>\<open>{success: false, error}\<close> entry with the message whenever the
  \<^verbatim>\<open>switch\<close> throws, which it does for an unknown operation kind and whenever one of the
  remote calls of the operation throws; the operations of \<open>post\<close> are still run, and their
  entries are those of \<open>post\<close> run from the state of the cache and the remote service that
  \<open>x\<close> left.  So a failing item changes the entries of the others only through the state it
  leaves, never by failing as such.
\<close>

theorem chunk_failure_isolation:
  "fst (processSheetsData cfg api (pre @ x # post) w) =
     fst (processSheetsData cfg api pre w) @
     entry (fst (sheets_switch cfg api x (snd (processSheetsData cfg api pre w)))) #
     fst (processSheetsData cfg api post
            (snd (sheets_switch cfg api x (snd (processSheetsData cfg api pre w))))) \<and>
   length (fst (processSheetsData cfg api batch w)) = length batch \<and>
   (fst (sheets_switch cfg api x (snd (processSheetsData cfg api pre w))) = Inl message \<longrightarrow>
      fst (processSheetsData cfg api (pre @ x # post) w) ! length pre = Failure message) \<and>
   (op_type x \<notin> {''read'', ''write'', ''update''} \<longrightarrow>
      sheets_switch cfg api x w = (Inl (''Unknown operation type: '' @ op_type x), w) \<and>
      fst (processSheetsData cfg api (pre @ x # post) w) ! length pre
        = Failure (''Unknown operation type: '' @ op_type x)) \<and>
   (first_throw (remote_calls cfg api x (snd (processSheetsData cfg api pre w)))
        (env (snd (processSheetsData cfg api pre w))) = Some message \<longrightarrow>
      fst (processSheetsData cfg api (pre @ x # post) w) ! length pre = Failure message)"
proof -
  let ?w1 = "snd (processSheetsData cfg api pre w)"
  have 1: "fst (processSheetsData cfg api (pre @ x # post) w) =
     fst (processSheetsData cfg api pre w) @
     entry (fst (sheets_switch cfg api x ?w1)) #
     fst (processSheetsData cfg api post (snd (sheets_switch cfg api x ?w1)))"
    by (simp add: processSheetsData_append split: prod.splits)
  have "length (fst (processSheetsData cfg api pre w)) = length pre"
    by (rule processSheetsData_length)
  with 1 have pos: "fst (processSheetsData cfg api (pre @ x # post) w) ! length pre
      = entry (fst (sheets_switch cfg api x ?w1))"
    by (metis nth_append_length)
  have 3: "fst (sheets_switch cfg api x ?w1) = Inl message \<longrightarrow>
      fst (processSheetsData cfg api (pre @ x # post) w) ! length pre = Failure message"
    by (simp add: pos entry_def)
  have 4: "op_type x \<notin> {''read'', ''write'', ''update''} \<longrightarrow>
      sheets_switch cfg api x w = (Inl (''Unknown operation type: '' @ op_type x), w) \<and>
      fst (processSheetsData cfg api (pre @ x # post) w) ! length pre
        = Failure (''Unknown operation type: '' @ op_type x)"
    by (simp add: pos unknown_kind_entry) (simp add: sheets_switch_def)
  have 5: "first_throw (remote_calls cfg api x ?w1) (env ?w1) = Some message \<longrightarrow>
      fst (processSheetsData cfg api (pre @ x # post) w) ! length pre = Failure message"
    using remote_error_thrown[of cfg api x ?w1 message] by (simp add: pos entry_def)
  from 1 processSheetsData_length[of cfg api batch w] 3 4 5 show ?thesis by blast
qed

lemma processSheetsData_failed_write:
  "fst (processSheetsData PERFORMANCE_CONFIG_caching mem_SpreadsheetApp
         ([read_A1] @ write_A1 # [read_A1]) world_protected)
     = [Success (Rows [[CStr ''old'']]),
        Failure ''You are trying to edit a protected cell or object.'',
        Success (Rows [[CStr ''old'']])]"
  by (simp add: batch_run_defs)

lemma write_on_protected_throws:
  "first_throw (remote_calls PERFORMANCE_CONFIG_caching mem_SpreadsheetApp write_A1
       (snd (processSheetsData PERFORMANCE_CONFIG_caching mem_SpreadsheetApp [read_A1] world_protected)))
     (env (snd (processSheetsData PERFORMANCE_CONFIG_caching mem_SpreadsheetApp [read_A1] world_protected)))
     = Some ''You are trying to edit a protected cell or object.''"
  by (simp add: batch_run_defs remote_calls_def)

text \<open>
  On the in-memory service: in \<^verbatim>\<open>[read A1, write A1, read A1]\<close> with the sheet refusing
  writes the remote call \<^verbatim>\<open>setValues\<close> throws and the write alone fails; in
  \<^verbatim>\<open>[read A1, delete, read A1]\<close> the unknown kind alone fails.
\<close>

theorem chunk_failure_isolation_witness:
  "first_throw (remote_calls PERFORMANCE_CONFIG_caching mem_SpreadsheetApp write_A1
       (snd (processSheetsData PERFORMANCE_CONFIG_caching mem_SpreadsheetApp [read_A1] world_protected)))
     (env (snd (processSheetsData PERFORMANCE_CONFIG_caching mem_SpreadsheetApp [read_A1] world_protected)))
     = Some ''You are trying to edit a protected cell or object.'' \<and>
   fst (processSheetsData PERFORMANCE_CONFIG_caching mem_SpreadsheetApp
         ([read_A1] @ write_A1 # [read_A1]) world_protected) ! length [read_A1]
     = Failure ''You are trying to edit a protected cell or object.'' \<and>
   fst (processSheetsData PERFORMANCE_CONFIG_caching mem_SpreadsheetApp
         ([read_A1] @ write_A1 # [read_A1]) world_protected)
     = [Success (Rows [[CStr ''old'']]),
        Failure ''You are trying to edit a protected cell or object.'',
        Success (Rows [[CStr ''old'']])] \<and>
   op_type unknown_op \<notin> {''read'', ''write'', ''update''} \<and>
   fst (sheets_switch PERFORMANCE_CONFIG_caching mem_SpreadsheetApp unknown_op
         (snd (processSheetsData PERFORMANCE_CONFIG_caching mem_SpreadsheetApp [read_A1] world_open)))
     = Inl ''Unknown operation type: delete'' \<and>
   fst (processSheetsData PERFORMANCE_CONFIG_caching mem_SpreadsheetApp
         ([read_A1] @ unknown_op # [read_A1]) world_open) ! length [read_A1]
     = Failure ''Unknown operation type: delete'' \<and>
   fst (processSheetsData PERFORMANCE_CONFIG_caching mem_SpreadsheetApp
         ([read_A1] @ unknown_op # [read_A1]) world_open)
     = [Success (Rows [[CStr ''old'']]), Failure ''Unknown operation type: delete'',
        Success (Rows [[CStr ''old'']])]"
proof -
  note a = chunk_failure_isolation[of PERFORMANCE_CONFIG_caching mem_SpreadsheetApp "[read_A1]"
      write_A1 "[read_A1]" world_protected "[]"
      "''You are trying to edit a protected cell or object.''"]
  note b = chunk_failure_isolation[of PERFORMANCE_CONFIG_caching mem_SpreadsheetApp "[read_A1]"
      unknown_op "[read_A1]" world_open "[]" "''Unknown operation type: delete''"]
  have h1: "op_type unknown_op \<notin> {''read'', ''write'', ''update''}"
    by (simp add: unknown_op_def)
  have h2: "fst (sheets_switch PERFORMANCE_CONFIG_caching mem_SpreadsheetApp unknown_op
         (snd (processSheetsData PERFORMANCE_CONFIG_caching mem_SpreadsheetApp [read_A1] world_open)))
     = Inl ''Unknown operation type: delete''"
    by (simp add: sheets_switch_def unknown_op_def)
  from a write_on_protected_throws
  have f1: "fst (processSheetsData PERFORMANCE_CONFIG_caching mem_SpreadsheetApp
         ([read_A1] @ write_A1 # [read_A1]) world_protected) ! length [read_A1]
     = Failure ''You are trying to edit a protected cell or object.''" by blast
  from b h2
  have f2: "fst (processSheetsData PERFORMANCE_CONFIG_caching mem_SpreadsheetApp
         ([read_A1] @ unknown_op # [read_A1]) world_open) ! length [read_A1]
     = Failure ''Unknown operation type: delete''" by blast
  have p: "fst (processSheetsData PERFORMANCE_CONFIG_caching mem_SpreadsheetApp
         ([read_A1] @ unknown_op # [read_A1]) world_open)
     = [Success (Rows [[CStr ''old'']]), Failure ''Unknown operation type: delete'',
        Success (Rows [[CStr ''old'']])]"
    using processSheetsData_three_ops by (simp add: three_ops_def)
  from write_on_protected_throws f1 processSheetsData_failed_write h1 h2 f2 p
  show ?thesis by blast
qed

section \<open>Properties of the search index\<close>

lemma index_cell_sound:
  assumes inv: "\<And>s rs r. Map_get m s = Some rs \<Longrightarrow> r \<in> set rs \<Longrightarrow>
                  1 \<le> r \<and> r < length data \<and>
                  (\<exists>x. cell_at data r c = Some x \<and> truthy x \<and> toLowerCase (toString x) = s)"
    and row: "1 \<le> rowIndex" "rowIndex < length data"
    and get: "Map_get (index_cell data c rowIndex m) s = Some rs" and mem: "r \<in> set rs"
  shows "1 \<le> r \<and> r < length data \<and>
         (\<exists>x. cell_at data r c = Some x \<and> truthy x \<and> toLowerCase (toString x) = s)"
proof (cases "cell_at data rowIndex c")
  case None
  with get have "Map_get m s = Some rs" by (simp add: index_cell_def)
  from inv[OF this mem] show ?thesis .
next
  case (Some v)
  show ?thesis
  proof (cases "truthy v")
    case False
    with Some get have "Map_get m s = Some rs" by (simp add: index_cell_def)
    from inv[OF this mem] show ?thesis .
  next
    case True
    define valueStr where "valueStr = toLowerCase (toString v)"
    define m1 where "m1 = (if \<not> Map_has m valueStr then Map_set valueStr [] m else m)"
    have inv1: "1 \<le> r' \<and> r' < length data \<and>
                  (\<exists>x. cell_at data r' c = Some x \<and> truthy x \<and> toLowerCase (toString x) = s')"
      if "Map_get m1 s' = Some rs'" "r' \<in> set rs'" for s' rs' r'
    proof (cases "\<not> Map_has m valueStr \<and> s' = valueStr")
      case True
      with that show ?thesis by (simp add: m1_def update_conv')
    next
      case False
      with that(1) have "Map_get m s' = Some rs'"
        by (auto simp: m1_def update_conv' split: if_splits)
      from inv[OF this that(2)] show ?thesis .
    qed
    have ic: "index_cell data c rowIndex m =
            (case Map_get m1 valueStr of None \<Rightarrow> m1 | Some rs0 \<Rightarrow> Map_set valueStr (rs0 @ [rowIndex]) m1)"
      unfolding valueStr_def m1_def index_cell_def Let_def using Some True by simp
    show ?thesis
    proof (cases "Map_get m1 valueStr")
      case None
      with ic get have "Map_get m1 s = Some rs" by simp
      from inv1[OF this mem] show ?thesis .
    next
      case (Some rs0)
      with ic have ic': "index_cell data c rowIndex m = Map_set valueStr (rs0 @ [rowIndex]) m1" by simp
      show ?thesis
      proof (cases "s = valueStr")
        case False
        with ic' get have "Map_get m1 s = Some rs" by (simp add: update_conv')
        from inv1[OF this mem] show ?thesis .
      next
        case eq: True
        with ic' get have rs: "rs = rs0 @ [rowIndex]" by (simp add: update_conv')
        show ?thesis
        proof (cases "r = rowIndex")
          case True
          with row \<open>cell_at data rowIndex c = Some v\<close> \<open>truthy v\<close> eq show ?thesis
            by (simp add: valueStr_def)
        next
          case False
          with rs mem have "r \<in> set rs0" by simp
          from inv1[OF Some this] eq show ?thesis by simp
        qed
      qed
    qed
  qed
qed

lemma fold_index_cell_sound:
  assumes "\<And>s rs r. Map_get m s = Some rs \<Longrightarrow> r \<in> set rs \<Longrightarrow>
                  1 \<le> r \<and> r < length data \<and>
                  (\<exists>x. cell_at data r c = Some x \<and> truthy x \<and> toLowerCase (toString x) = s)"
    and "\<forall>i \<in> set is. 1 \<le> i \<and> i < length data"
    and "Map_get (fold (index_cell data c) is m) s = Some rs" and "r \<in> set rs"
  shows "1 \<le> r \<and> r < length data \<and>
         (\<exists>x. cell_at data r c = Some x \<and> truthy x \<and> toLowerCase (toString x) = s)"
  using assms
proof (induction "is" arbitrary: m s rs r)
  case Nil
  then show ?case by simp
next
  case (Cons i "is")
  have step: "1 \<le> r' \<and> r' < length data \<and>
         (\<exists>x. cell_at data r' c = Some x \<and> truthy x \<and> toLowerCase (toString x) = s')"
    if "Map_get (index_cell data c i m) s' = Some rs'" "r' \<in> set rs'" for s' rs' r'
    using index_cell_sound[of m data c i s' rs' r'] Cons.prems(1,2) that by auto
  from Cons.prems(3) have "Map_get (fold (index_cell data c) is (index_cell data c i m)) s = Some rs"
    by simp
  from Cons.IH[OF step _ this Cons.prems(4)] Cons.prems(2) show ?case by simp
qed

lemma build_column_sound:
  assumes "Map_get (build_column data c) s = Some rs" and "r \<in> set rs"
  shows "1 \<le> r \<and> r < length data \<and>
         (\<exists>x. cell_at data r c = Some x \<and> truthy x \<and> toLowerCase (toString x) = s)"
proof (rule fold_index_cell_sound[of "[]" data c "[1..<length data]" s rs r])
  show "Map_get (fold (index_cell data c) [1..<length data] []) s = Some rs"
    using assms(1) by (simp add: build_column_def)
qed (use assms(2) in auto)

lemma fold_columns_lookup:
  assumes "\<forall>(h, c) \<in> set ps. c < length headers \<and> headers ! c = h"
    and "Map_get (fold (\<lambda>(header, colIndex) index.
            Map_set (toString header) (build_column data colIndex) index) ps idx) column = Some m"
  shows "Map_get idx column = Some m \<or>
         (\<exists>c < length headers. toString (headers ! c) = column \<and> m = build_column data c)"
  using assms
proof (induction ps arbitrary: idx)
  case Nil
  then show ?case by simp
next
  case (Cons p ps)
  obtain h c where p: "p = (h, c)" by (cases p)
  from Cons.prems(1) p have hc: "c < length headers" "headers ! c = h" by auto
  from Cons.prems(2) p have "Map_get (fold (\<lambda>(header, colIndex) index.
            Map_set (toString header) (build_column data colIndex) index) ps
            (Map_set (toString h) (build_column data c) idx)) column = Some m" by simp
  from Cons.IH[OF _ this] Cons.prems(1)
  have "Map_get (Map_set (toString h) (build_column data c) idx) column = Some m \<or>
         (\<exists>c < length headers. toString (headers ! c) = column \<and> m = build_column data c)" by simp
  then show ?case
  proof
    assume "Map_get (Map_set (toString h) (build_column data c) idx) column = Some m"
    then show ?thesis using hc by (auto simp: update_conv' split: if_splits)
  qed simp
qed

lemma buildSearchIndex_lookup:
  assumes "Map_get (buildSearchIndex data headers) column = Some m"
  shows "\<exists>c < length headers. toString (headers ! c) = column \<and> m = build_column data c"
proof -
  have "\<forall>(h, c) \<in> set (zip headers [0..<length headers]). c < length headers \<and> headers ! c = h"
    by (auto simp: set_zip)
  from fold_columns_lookup[OF this, of data "[]" column m] assms show ?thesis
    by (simp add: buildSearchIndex_def)
qed

lemma set_fold_Set_add: "set (fold Set_add rs s) = set rs \<union> set s"
  by (induction rs arbitrary: s) (auto simp: Set_add_def)

lemma search_single:
  "set (searchWithIndex index [(column, v)]) =
     (case Map_get index column of None \<Rightarrow> {}
      | Some m \<Rightarrow> (case Map_get m (toLowerCase (toString v)) of None \<Rightarrow> {} | Some rs \<Rightarrow> set rs))"
  by (simp add: searchWithIndex_def search_step_def Let_def set_fold_Set_add split: option.splits)

lemma nat_digits_nonempty: "nat_digits n \<noteq> []"
  by (subst nat_digits.simps) simp

lemma truthy_toString_nonempty: "truthy x \<Longrightarrow> toLowerCase (toString x) \<noteq> []"
  by (cases x) (auto simp: toLowerCase_def Number_toString_def nat_digits_nonempty)

lemma set_fold_intersect:
  "set (fold (\<lambda>row newMatches. if row \<in> set M then Set_add row newMatches else newMatches) rs acc)
     = (set rs \<inter> set M) \<union> set acc"
  by (induction rs arbitrary: acc) (auto simp: Set_add_def)

text \<open>
  What the search returns for two criteria, in general: the intersection of the two row
  sets only when the second column is in the index and the first row set is not empty.
\<close>

lemma search_two_criteria:
  "set (searchWithIndex index [(c1, v1), (c2, v2)]) =
     (if Map_get index c2 = None then set (searchWithIndex index [(c1, v1)])
      else if searchWithIndex index [(c1, v1)] = [] then set (searchWithIndex index [(c2, v2)])
      else set (searchWithIndex index [(c1, v1)]) \<inter> set (searchWithIndex index [(c2, v2)]))"
proof -
  define M where "M = searchWithIndex index [(c1, v1)]"
  have two: "searchWithIndex index [(c1, v1), (c2, v2)] = search_step index (c2, v2) M"
    by (simp add: searchWithIndex_def M_def)
  have one: "searchWithIndex index [(c2, v2)] = search_step index (c2, v2) []"
    by (simp add: searchWithIndex_def)
  show ?thesis
  proof (cases "Map_get index c2")
    case None
    then show ?thesis unfolding two M_def[symmetric] by (simp add: search_step_def)
  next
    case (Some m)
    define rs where "rs = (case Map_get m (toLowerCase (toString v2)) of None \<Rightarrow> [] | Some found \<Rightarrow> found)"
    have s2: "set (search_step index (c2, v2) []) = set rs"
      using Some by (simp add: search_step_def Let_def rs_def set_fold_Set_add)
    show ?thesis
    proof (cases "M = []")
      case True
      then show ?thesis unfolding two one M_def[symmetric] using Some by simp
    next
      case False
      then have "set (search_step index (c2, v2) M) = set rs \<inter> set M"
        using Some by (simp add: search_step_def Let_def rs_def[symmetric] set_fold_Set_add set_fold_intersect)
      with False s2 Some show ?thesis unfolding two one M_def[symmetric] by auto
    qed
  qed
qed

lemmas index_run_defs = buildSearchIndex_def build_column_def index_cell_def cell_at_def
  toLowerCase_def lower_char_def Map_has_def Let_def searchWithIndex_def search_step_def
  Set_add_def Number_toString_def digit_char_def

lemma orders_index_value:
  "orders_index = [(''Status'', [(''pending'', [1, 3]), (''processing'', [2])]),
                   (''Client'', [(''acme'', [1, 3]), (''beta'', [2])])]"
proof -
  have "[1..<4] = [1, 2, 3]" "[0..<2] = [0, 1]" by (simp_all add: upt_rec)
  then show ?thesis by (simp add: orders_index_def orders_data_def index_run_defs)
qed

lemma qty_index_value: "qty_index = [(''Qty'', [(''0'', [2]), (''12'', [3])])]"
proof -
  have "[1..<4] = [1, 2, 3]" "[0..<1] = [0]" by (simp_all add: upt_rec)
  then show ?thesis by (simp add: qty_index_def qty_data_def index_run_defs nat_digits.simps)
qed

text \<open>
  Claim C3, evaluated.  The index is built from three orders; the criteria are
  \<^verbatim>\<open>{Client: "Zenith", Status: "Pending"}\<close>.  No row has client Zenith, rows 1 and 3 are
  pending, so the intersection of the two single-criterion row sets is empty; the search
  returns rows 1 and 3.  After the first criterion \<^verbatim>\<open>matchingRows\<close> is empty, and the test
  \<^verbatim>\<open>matchingRows.size === 0\<close> takes the second criterion for the first one.  With the criteria
  in the other order the result is empty.
\<close>

theorem search_two_criteria_not_intersection:
  "searchWithIndex orders_index [(''Client'', CStr ''Zenith''), (''Status'', CStr ''Pending'')] = [1, 3] \<and>
   searchWithIndex orders_index [(''Client'', CStr ''Zenith'')] = [] \<and>
   searchWithIndex orders_index [(''Status'', CStr ''Pending'')] = [1, 3] \<and>
   set (searchWithIndex orders_index [(''Client'', CStr ''Zenith''), (''Status'', CStr ''Pending'')])
     \<noteq> set (searchWithIndex orders_index [(''Client'', CStr ''Zenith'')])
         \<inter> set (searchWithIndex orders_index [(''Status'', CStr ''Pending'')]) \<and>
   searchWithIndex orders_index [(''Status'', CStr ''Pending''), (''Client'', CStr ''Zenith'')] = []"
proof -
  have a: "searchWithIndex orders_index [(''Client'', CStr ''Zenith''), (''Status'', CStr ''Pending'')] = [1, 3]"
    by (simp add: orders_index_value index_run_defs)
  have b: "searchWithIndex orders_index [(''Client'', CStr ''Zenith'')] = []"
    by (simp add: orders_index_value index_run_defs)
  have c: "searchWithIndex orders_index [(''Status'', CStr ''Pending'')] = [1, 3]"
    by (simp add: orders_index_value index_run_defs)
  have d: "searchWithIndex orders_index [(''Status'', CStr ''Pending''), (''Client'', CStr ''Zenith'')] = []"
    by (simp add: orders_index_value index_run_defs)
  show ?thesis unfolding a b c d by simp
qed

text \<open>
  Claim C10, as stated, fails.  In the quantities snapshot row 1 holds the number 0 and row 2
  the text \<^verbatim>\<open>"0"\<close>.  The criterion \<^verbatim>\<open>{Qty: 0}\<close> is equal to the falsy value 0 and finds a
  row: row 2, whose non-empty text is truthy and has the same string form.
\<close>

theorem zero_criterion_finds_text_zero:
  "searchWithIndex qty_index [(''Qty'', CNum 0)] = [2] \<and>
   \<not> truthy (CNum 0) \<and>
   cell_at qty_data 1 0 = Some (CNum 0) \<and>
   cell_at qty_data 2 0 = Some (CStr ''0'')"
  by (simp add: qty_index_value index_run_defs nat_digits.simps qty_data_def)

text \<open>
  Claim C10, amended.  The index build skips every falsy cell: each row number stored in a
  column's map under a value string comes from a truthy cell of a column with that header,
  whose lower-cased string form is that value string.  Hence every row a single criterion
  returns holds such a truthy cell with the criterion's string form, so the rows whose cell
  is the empty string, the number 0 or \<^verbatim>\<open>false\<close> are never returned on account of that cell;
  and a criterion equal to the empty string finds no rows at all.
\<close>

theorem falsy_cells_never_indexed:
  "(\<forall>m s rs r. Map_get (buildSearchIndex data headers) column = Some m \<longrightarrow>
       Map_get m s = Some rs \<longrightarrow> r \<in> set rs \<longrightarrow>
       (\<exists>c x. c < length headers \<and> toString (headers ! c) = column \<and>
              cell_at data r c = Some x \<and> truthy x \<and> toLowerCase (toString x) = s)) \<and>
   (\<forall>r \<in> set (searchWithIndex (buildSearchIndex data headers) [(column, v)]).
       1 \<le> r \<and> r < length data \<and>
       (\<exists>c x. c < length headers \<and> toString (headers ! c) = column \<and>
              cell_at data r c = Some x \<and> truthy x \<and>
              toLowerCase (toString x) = toLowerCase (toString v))) \<and>
   searchWithIndex (buildSearchIndex data headers) [(column, CStr [])] = []"
proof -
  have A: "1 \<le> r \<and> r < length data \<and>
           (\<exists>c x. c < length headers \<and> toString (headers ! c) = column \<and>
              cell_at data r c = Some x \<and> truthy x \<and> toLowerCase (toString x) = s)"
    if "Map_get (buildSearchIndex data headers) column = Some m" "Map_get m s = Some rs" "r \<in> set rs"
    for m s rs r
  proof -
    from buildSearchIndex_lookup[OF that(1)] obtain c where
      c: "c < length headers" "toString (headers ! c) = column" "m = build_column data c" by blast
    from build_column_sound[of data c s rs r] that(2,3) c(3)
    have "1 \<le> r \<and> r < length data \<and>
         (\<exists>x. cell_at data r c = Some x \<and> truthy x \<and> toLowerCase (toString x) = s)" by simp
    with c show ?thesis by blast
  qed
  have B: "1 \<le> r \<and> r < length data \<and>
       (\<exists>c x. c < length headers \<and> toString (headers ! c) = column \<and>
              cell_at data r c = Some x \<and> truthy x \<and>
              toLowerCase (toString x) = toLowerCase (toString w))"
    if "r \<in> set (searchWithIndex (buildSearchIndex data headers) [(column, w)])" for r w
  proof -
    from that obtain m rs where "Map_get (buildSearchIndex data headers) column = Some m"
      "Map_get m (toLowerCase (toString w)) = Some rs" "r \<in> set rs"
      by (auto simp: search_single split: option.splits)
    from A[OF this] show ?thesis .
  qed
  have C: "searchWithIndex (buildSearchIndex data headers) [(column, CStr [])] = []"
  proof (rule ccontr)
    assume "searchWithIndex (buildSearchIndex data headers) [(column, CStr [])] \<noteq> []"
    then obtain r where "r \<in> set (searchWithIndex (buildSearchIndex data headers) [(column, CStr [])])"
      by (cases "searchWithIndex (buildSearchIndex data headers) [(column, CStr [])]") auto
    from B[OF this] obtain x where "truthy x" "toLowerCase (toString x) = toLowerCase (toString (CStr []))"
      by blast
    with truthy_toString_nonempty[of x] show False by (simp add: toLowerCase_def)
  qed
  from A B C show ?thesis by blast
qed

text \<open>
  On the quantities snapshot: the index of \<^verbatim>\<open>Qty\<close> holds rows 2 and 3 only, the criterion 0
  returns row 2 and not row 1, and the empty string returns nothing.
\<close>

theorem falsy_cells_never_indexed_witness:
  "Map_get (buildSearchIndex qty_data (hd qty_data)) ''Qty'' = Some [(''0'', [2]), (''12'', [3])] \<and>
   searchWithIndex (buildSearchIndex qty_data (hd qty_data)) [(''Qty'', CNum 0)] = [2] \<and>
   1 \<notin> set (searchWithIndex (buildSearchIndex qty_data (hd qty_data)) [(''Qty'', CNum 0)]) \<and>
   (\<exists>c x. c < length (hd qty_data) \<and> toString (hd qty_data ! c) = ''Qty'' \<and>
          cell_at qty_data 2 c = Some x \<and> truthy x \<and>
          toLowerCase (toString x) = toLowerCase (toString (CNum 0))) \<and>
   searchWithIndex (buildSearchIndex qty_data (hd qty_data)) [(''Qty'', CStr [])] = []"
proof -
  have i: "buildSearchIndex qty_data (hd qty_data) = [(''Qty'', [(''0'', [2]), (''12'', [3])])]"
    using qty_index_value by (simp add: qty_index_def)
  have s: "searchWithIndex (buildSearchIndex qty_data (hd qty_data)) [(''Qty'', CNum 0)] = [2]"
    unfolding i by (simp add: index_run_defs nat_digits.simps)
  note t = falsy_cells_never_indexed[of qty_data "hd qty_data" "''Qty''" "CNum 0"]
  from t s have "\<exists>c x. c < length (hd qty_data) \<and> toString (hd qty_data ! c) = ''Qty'' \<and>
          cell_at qty_data 2 c = Some x \<and> truthy x \<and>
          toLowerCase (toString x) = toLowerCase (toString (CNum 0))"
    by simp
  moreover from t have "searchWithIndex (buildSearchIndex qty_data (hd qty_data)) [(''Qty'', CStr [])] = []"
    by blast
  ultimately show ?thesis using s by (simp add: i)
qed

section \<open>Properties of the order folder provisioner\<close>

lemmas drive_run_defs =
  createAdvancedOrderFolder_def advanced_order_folder_body_def order_folder_steps_def
  mem_Services_def drive_initial_def and_then_def return_def throw_def try_and_log_def
  getOrCreateFolder_def createOrderSubfolders_def orderFolderStructure_def has_keys_def
  setOrderFolderPermissions_def createOrderMetadata_def structure_keys_def
  logFolderCreation_def getSubfolderDetails_def quarter_of_def parseInt_def digit_value_def
  hex_value_def digits_value_def is_space_def sanitizeFolderName_def illegal_chars_def
  Number_toString_def digit_char_def Let_def nat_digits.simps upt_rec

lemma split_documented_id:
  "js_split CHR ''-'' ''ORD-2024-03-15-007'' = [''ORD'', ''2024'', ''03'', ''15'', ''007'']"
  by simp

lemma split_documented_format:
  "js_split CHR ''-'' ''ORD-YYYY-MM-DD-XXX'' = [''ORD'', ''YYYY'', ''MM'', ''DD'', ''XXX'']"
  by simp

lemma split_four_segment_id:
  "js_split CHR ''-'' ''ORD-2024-03-007'' = [''ORD'', ''2024'', ''03'', ''007'']"
  by simp

lemma quarter_of_march: "quarter_of (parseInt ''03'') = ''Q1''"
  by (simp add: quarter_of_def parseInt_def digit_value_def hex_value_def digits_value_def
      is_space_def Number_toString_def digit_char_def Let_def nat_digits.simps upt_rec)

text \<open>
  Claim C1, evaluated.  \<^verbatim>\<open>"ORD-2024-03-15-007"\<close> is of the form \<^verbatim>\<open>ORD-YYYY-MM-DD-XXX\<close>
  that the comment and the error message of \<^verbatim>\<open>createAdvancedOrderFolder\<close> name.  Split at
  the dashes it has five pieces, the check \<^verbatim>\<open>orderParts.length !== 4\<close> throws, and the call
  returns the error object with \<^verbatim>\<open>folderPath: 'ERROR'\<close>; no year, quarter or order folder is
  derived.  Only \<^verbatim>\<open>01_Orders\<close> has been created by then.
\<close>

theorem documented_order_id_rejected:
  "length (js_split CHR ''-'' ''ORD-2024-03-15-007'') = 5 \<and>
   createAdvancedOrderFolder mem_Services ''ORD-2024-03-15-007'' ''Acme Ltd'' [] [] drive_initial
     = (error_object ''Invalid Order ID format: ORD-2024-03-15-007. Expected: ORD-YYYY-MM-DD-XXX'',
        drive_initial \<lparr> drive_folders := [(''root'', [], ''Trade_Operations''),
                                           (''F1'', ''root'', ''01_Orders'')],
                        create_calls := 1 \<rparr>)"
  by (simp add: drive_run_defs error_object_def)

text \<open>
  Whatever the services do, an identifier that does not split into exactly four pieces makes
  the call return the error object: the exception of the check, or one thrown earlier by the
  look-up of the root folder, is caught inside the call.
\<close>

lemma invalid_segment_count_error_object:
  assumes "length (js_split CHR ''-'' orderId) \<noteq> 4"
  shows "\<exists>message. fst (createAdvancedOrderFolder api orderId clientName clientEmail productCategory e)
           = error_object message"
  using assms
  by (auto simp: createAdvancedOrderFolder_def advanced_order_folder_body_def and_then_def
        throw_def return_def error_object_def Let_def
      split: prod.splits sum.splits option.splits)

text \<open>
  Claim C8, evaluated.  \<^verbatim>\<open>"ORD-2024-03-007"\<close> has four pieces, one fewer than the expected
  format \<^verbatim>\<open>ORD-YYYY-MM-DD-XXX\<close>.  The call does not return a validation error: it takes the
  third piece for the month and returns the success object for the path
  \<^verbatim>\<open>2024/Q1/ORD-2024-03-007_Acme Ltd\<close>.
\<close>

theorem four_segment_id_accepted:
  "length (js_split CHR ''-'' ''ORD-2024-03-007'')
     \<noteq> length (js_split CHR ''-'' ''ORD-YYYY-MM-DD-XXX'') \<and>
   fst (createAdvancedOrderFolder mem_Services ''ORD-2024-03-007'' ''Acme Ltd'' [] [] drive_initial)
     = \<lparr> error = None, folderId = ''F4'',
         folderUrl = ''https://drive.google.com/drive/folders/F4'',
         folderPath = ''2024/Q1/ORD-2024-03-007_Acme Ltd'',
         subfolders = Some [(''Documents'', ''F5''), (''Communications'', ''F10''),
                            (''Attachments'', ''F14''), (''Internal'', ''F19'')] \<rparr>"
  by (simp add: drive_run_defs)

text \<open>
  On the in-memory drive \<^verbatim>\<open>getOrCreateFolder\<close> is idempotent: called again with the same
  parent and name it returns the same folder and changes nothing.
\<close>

lemma getOrCreateFolder_again:
  assumes "getOrCreateFolder mem_Services parent name e = (Inr folder, e1)"
  shows "getOrCreateFolder mem_Services parent name e1 = (Inr folder, e1)"
proof (cases "filter (\<lambda>(i, p, n). p = parent \<and> n = name) (drive_folders e)")
  case Nil
  with assms have e1: "e1 = e \<lparr> drive_folders :=
                 drive_folders e @ [(''F'' @ nat_digits (length (drive_folders e)), parent, name)],
               create_calls := create_calls e + 1 \<rparr>"
    and f: "folder = ''F'' @ nat_digits (length (drive_folders e))"
    by (auto simp: getOrCreateFolder_def mem_Services_def and_then_def return_def)
  show ?thesis
    by (simp add: getOrCreateFolder_def mem_Services_def and_then_def return_def e1 f Nil)
next
  case (Cons x xs)
  with assms have "e1 = e" "folder = fst x"
    by (auto simp: getOrCreateFolder_def mem_Services_def and_then_def return_def)
  with Cons show ?thesis
    by (simp add: getOrCreateFolder_def mem_Services_def and_then_def return_def)
qed

lemma first_provisioning_run:
  "createAdvancedOrderFolder mem_Services ''ORD-2024-07-002'' ''Acme Ltd'' [] [] drive_initial
     = (acme_result, drive_after_first)"
  by (simp add: drive_run_defs acme_result_def drive_after_first_def acme_metadata_def
      acme_log_row_def)

lemma second_provisioning_run:
  "createAdvancedOrderFolder mem_Services ''ORD-2024-07-002'' ''Acme Ltd'' [] [] drive_after_first
     = (acme_result,
        drive_after_first
          \<lparr> drive_files := [(''F4'', acme_metadata), (''F4'', acme_metadata)],
            folder_log := Some [[''Timestamp'', ''Order_ID'', ''Folder_ID'', ''Folder_URL'',
                                 ''Action'', ''User''], acme_log_row, acme_log_row],
            create_calls := 24 \<rparr>)"
  by (simp add: drive_run_defs acme_result_def drive_after_first_def acme_metadata_def
      acme_log_row_def)

text \<open>
  Claim C4, evaluated.  \<^verbatim>\<open>createAdvancedOrderFolder("ORD-2024-07-002", "Acme Ltd")\<close> is
  called twice on the in-memory drive.  Both calls return the same object with the same
  folder id, and the second call creates no folder: the walk reuses every folder.  But the
  second call makes one more create call and leaves a second \<^verbatim>\<open>_order_metadata.json\<close> in the
  order folder, where the claim has a repeated call create no remote object at all.
  \<^verbatim>\<open>createOrderMetadata\<close> calls \<^verbatim>\<open>createFile\<close> without the \<^verbatim>\<open>fileExists\<close> test that
  \<^verbatim>\<open>createSubfolderStructure\<close> makes before creating its files.
\<close>

theorem repeated_provisioning_creates_metadata_again:
  "fst (createAdvancedOrderFolder mem_Services ''ORD-2024-07-002'' ''Acme Ltd'' [] [] drive_initial)
     = acme_result \<and>
   fst (createAdvancedOrderFolder mem_Services ''ORD-2024-07-002'' ''Acme Ltd'' [] []
          (snd (createAdvancedOrderFolder mem_Services ''ORD-2024-07-002'' ''Acme Ltd'' [] [] drive_initial)))
     = acme_result \<and>
   drive_folders (snd (createAdvancedOrderFolder mem_Services ''ORD-2024-07-002'' ''Acme Ltd'' [] []
          (snd (createAdvancedOrderFolder mem_Services ''ORD-2024-07-002'' ''Acme Ltd'' [] [] drive_initial))))
     = drive_folders (snd (createAdvancedOrderFolder mem_Services ''ORD-2024-07-002'' ''Acme Ltd'' [] [] drive_initial)) \<and>
   create_calls (snd (createAdvancedOrderFolder mem_Services ''ORD-2024-07-002'' ''Acme Ltd'' [] [] drive_initial))
     = 23 \<and>
   create_calls (snd (createAdvancedOrderFolder mem_Services ''ORD-2024-07-002'' ''Acme Ltd'' [] []
          (snd (createAdvancedOrderFolder mem_Services ''ORD-2024-07-002'' ''Acme Ltd'' [] [] drive_initial))))
     = 24 \<and>
   drive_files (snd (createAdvancedOrderFolder mem_Services ''ORD-2024-07-002'' ''Acme Ltd'' [] []
          (snd (createAdvancedOrderFolder mem_Services ''ORD-2024-07-002'' ''Acme Ltd'' [] [] drive_initial))))
     = [(''F4'', acme_metadata), (''F4'', acme_metadata)]"
  by (simp add: first_provisioning_run second_provisioning_run) (simp add: drive_after_first_def)

end
